theory Spec2Isabelle
  imports Complex_Main "HOL-Library.AList" "HOL-Library.Sublist"
begin

section \<open>Data model\<close>

text \<open>
  The program is Python on top of the PyMuPDF library (\<^verbatim>\<open>fitz\<close>). Python floats are
  idealised as rationals (exact arithmetic, no rounding), Python ints as \<open>int\<close>, strings as
  \<open>string\<close> (a list of code points, each \<open>char\<close> holding a code point below 256, so that
  \<open>CHR 0xA0\<close> is the no-break space), a \<^verbatim>\<open>dict\<close> as an association list that keeps
  insertion order
  (\<open>AList.update\<close> overwrites in place and appends a new key at the end, as Python does),
  and an optional dictionary key as an \<open>option\<close> field read through \<open>py_get\<close>.
\<close>

definition py_get :: "'a option \<Rightarrow> 'a \<Rightarrow> 'a" where
  \<comment> \<open>\<^verbatim>\<open>d.get(key, default)\<close> for a key that may be missing\<close>
  "py_get field dflt = (case field of None \<Rightarrow> dflt | Some v \<Rightarrow> v)"

text \<open>\<^verbatim>\<open>fitz.Rect\<close>: four float coordinates.\<close>

record rect =
  x0 :: rat
  y0 :: rat
  x1 :: rat
  y1 :: rat

text \<open>
  The entries of \<^verbatim>\<open>page.get_text("dict")\<close>: a span always carries \<^verbatim>\<open>bbox\<close> (the source
  indexes it), while \<^verbatim>\<open>size\<close>, \<^verbatim>\<open>font\<close>, \<^verbatim>\<open>color\<close> and \<^verbatim>\<open>text\<close> are read with
  \<^verbatim>\<open>.get\<close>; a line always carries \<^verbatim>\<open>spans\<close> and may carry \<^verbatim>\<open>bbox\<close>; a block may carry
  \<^verbatim>\<open>lines\<close> (image blocks do not).
\<close>

record span =
  span_bbox :: rect
  span_size :: "rat option"
  span_font :: "string option"
  span_color :: "int option"
  span_text :: "string option"

record line =
  line_bbox :: "rect option"
  line_spans :: "span list"

record block =
  block_lines :: "line list option"

text \<open>
  A page as the first pass reads it: \<^verbatim>\<open>page.search_for\<close> (the library's exact substring
  search, returning every rectangle where the string renders) and the blocks of
  \<^verbatim>\<open>page.get_text("dict")\<close>.
\<close>

record page =
  search_for :: "string \<Rightarrow> rect list"
  text_dict :: "block list"

record document =
  pages :: "page list"
  metadata :: "(string \<times> string option) list option"

text \<open>
  One entry of \<^verbatim>\<open>sensitive_elements\<close> (class \<^verbatim>\<open>SensitiveElement\<close> of models.py), as the
  JSON object the oracle returned: every key may be missing. \<^verbatim>\<open>confidence\<close> is never read
  by the processor and is left out.
\<close>

record element =
  el_type :: "string option"
  el_value :: "string option"
  el_replacement :: "string option"
  el_page :: "int option"

record span_info =
  font :: string
  size :: rat
  color :: int

text \<open>One value of \<^verbatim>\<open>text_positions\<close>.\<close>

record occurrence =
  occ_rect :: rect
  replacement :: string
  occ_span_info :: span_info

text \<open>One entry of \<^verbatim>\<open>not_found_elements\<close>.\<close>

record not_found =
  nf_type :: string
  nf_value :: string
  nf_page :: int
  nf_replacement :: string

type_synonym text_positions = "(string \<times> occurrence) list"

section \<open>Python strings\<close>

definition is_space :: "char \<Rightarrow> bool" where
  \<comment> \<open>\<^verbatim>\<open>str.isspace\<close>, the whitespace of \<^verbatim>\<open>str.split()\<close> and \<^verbatim>\<open>str.strip()\<close>, on the code
      points below 256: tab, LF, VT, FF, CR, FS, GS, RS, US, space, next line (U+0085) and
      no-break space (U+00A0)\<close>
  "is_space c = (of_char c \<in> set [9, 10, 11, 12, 13, 28, 29, 30, 31, 32, 133, 160 :: nat])"

fun split_from :: "string \<Rightarrow> string \<Rightarrow> string list" where
  \<comment> \<open>\<^verbatim>\<open>str.split()\<close> with the token read so far as first argument\<close>
  "split_from cur [] = (if cur = [] then [] else [cur])"
| "split_from cur (c # cs) =
     (if is_space c then (if cur = [] then split_from [] cs else cur # split_from [] cs)
      else split_from (cur @ [c]) cs)"

definition split :: "string \<Rightarrow> string list" where
  \<comment> \<open>\<^verbatim>\<open>s.split()\<close>: the maximal runs of non-whitespace characters\<close>
  "split s = split_from [] s"

definition strip :: "string \<Rightarrow> string" where
  \<comment> \<open>\<^verbatim>\<open>s.strip()\<close>\<close>
  "strip s = rev (dropWhile is_space (rev (dropWhile is_space s)))"

definition digit_char :: "nat \<Rightarrow> char" where
  "digit_char d = char_of (48 + d)"

fun str_nat :: "nat \<Rightarrow> string" where
  "str_nat n = (if n < 10 then [digit_char n] else str_nat (n div 10) @ [digit_char (n mod 10)])"

declare str_nat.simps [simp del]

definition str_int :: "int \<Rightarrow> string" where
  \<comment> \<open>\<^verbatim>\<open>str(i)\<close> for a Python int\<close>
  "str_int i = (if i < 0 then CHR ''-'' # str_nat (nat (- i)) else str_nat (nat i))"

definition startswith :: "string \<Rightarrow> string \<Rightarrow> bool" where
  \<comment> \<open>\<^verbatim>\<open>s.startswith(p)\<close>\<close>
  "startswith s p = (take (length p) s = p)"

section \<open>Rectangles of the library\<close>

text \<open>
  \<^verbatim>\<open>fitz.Rect\<close> for finite rectangles: \<^verbatim>\<open>is_empty\<close>, the intersection \<^verbatim>\<open>r & s\<close>,
  \<^verbatim>\<open>r.intersects(s)\<close> and \<^verbatim>\<open>r.get_area()\<close>. The library's infinite rectangle is not
  modelled: no page content has it as its bounding box.
\<close>

definition is_empty :: "rect \<Rightarrow> bool" where
  "is_empty r = (x0 r \<ge> x1 r \<or> y0 r \<ge> y1 r)"

definition intersect :: "rect \<Rightarrow> rect \<Rightarrow> rect" where
  "intersect r s =
     (if is_empty s then s
      else if is_empty r then r
      else \<lparr>x0 = max (x0 r) (x0 s), y0 = max (y0 r) (y0 s),
            x1 = min (x1 r) (x1 s), y1 = min (y1 r) (y1 s)\<rparr>)"

definition intersects :: "rect \<Rightarrow> rect \<Rightarrow> bool" where
  "intersects r s =
     (if is_empty r \<or> is_empty s then False
      else if is_empty (intersect r s) then False
      else True)"

definition get_area :: "rect \<Rightarrow> rat" where
  "get_area r = max 0 (x1 r - x0 r) * max 0 (y1 r - y0 r)"

section \<open>First pass of \<^verbatim>\<open>anonymize_pdf\<close>: locating the sensitive elements\<close>

definition elements_to_search :: "string \<Rightarrow> string \<Rightarrow> string \<Rightarrow> (string \<times> string) list" where
  \<comment> \<open>pdf_processor.py, lines 47 to 59\<close>
  "elements_to_search element_type original_text replacement_text =
     [(original_text, replacement_text)] @
     (if element_type \<in> set [''Person Name'', ''Client Name''] then
        (let name_parts = split original_text;
             replacement_parts = split replacement_text
         in if length name_parts \<ge> 2 \<and> length replacement_parts \<ge> 2
            then [(hd name_parts, hd replacement_parts),
                  (last name_parts, last replacement_parts)]
            else [])
      else [])"

definition make_span_info :: "span \<Rightarrow> span_info" where
  \<comment> \<open>lines 84 to 99: the style read from the intersecting span\<close>
  "make_span_info s =
     (let reported_size = py_get (span_size s) 10;
          visual_height = y1 (span_bbox s) - y0 (span_bbox s);
          actual_size = (if visual_height > reported_size * 1.5
                         then visual_height * 0.85
                         else reported_size)
      in \<lparr>font = py_get (span_font s) ''helv'',
          size = actual_size,
          color = py_get (span_color s) 0\<rparr>)"

fun probe_spans :: "span list \<Rightarrow> rect \<Rightarrow> span_info option" where
  \<comment> \<open>the loop of line 81: leaves at the first span whose box intersects the match\<close>
  "probe_spans [] r = None"
| "probe_spans (s # ss) r =
     (if intersects (span_bbox s) r then Some (make_span_info s) else probe_spans ss r)"

fun probe_lines :: "line list \<Rightarrow> rect \<Rightarrow> span_info option" where
  \<comment> \<open>the loop of line 80, left as soon as \<^verbatim>\<open>span_info\<close> is set\<close>
  "probe_lines [] r = None"
| "probe_lines (l # ls) r =
     (case probe_spans (line_spans l) r of
        Some info \<Rightarrow> Some info
      | None \<Rightarrow> probe_lines ls r)"

fun probe_blocks :: "block list \<Rightarrow> rect \<Rightarrow> span_info option" where
  \<comment> \<open>the loop of line 78; a block without \<^verbatim>\<open>lines\<close> is passed over\<close>
  "probe_blocks [] r = None"
| "probe_blocks (b # bs) r =
     (case block_lines b of
        None \<Rightarrow> probe_blocks bs r
      | Some ls \<Rightarrow>
         (case probe_lines ls r of
            Some info \<Rightarrow> Some info
          | None \<Rightarrow> probe_blocks bs r))"

definition default_span_info :: span_info where
  "default_span_info = \<lparr>font = ''helv'', size = 10, color = 0\<rparr>"

definition style_probe :: "page \<Rightarrow> rect \<Rightarrow> span_info" where
  \<comment> \<open>lines 76 to 107\<close>
  "style_probe pg r =
     (case probe_blocks (text_dict pg) r of
        None \<Rightarrow> default_span_info
      | Some info \<Rightarrow> info)"

definition text_runs :: "block list \<Rightarrow> span list" where
  \<comment> \<open>the text runs of a page in the order the three loops visit them\<close>
  "text_runs blocks =
     concat (map line_spans (concat (map (\<lambda>b. py_get (block_lines b) []) blocks)))"

definition position_key :: "(rat \<Rightarrow> string) \<Rightarrow> int \<Rightarrow> string \<Rightarrow> rect \<Rightarrow> string" where
  \<comment> \<open>line 73; \<open>str_float\<close> is Python's rendering of a float inside an f-string\<close>
  "position_key str_float page_num search_text r =
     str_int page_num @ ''_'' @ search_text @ ''_'' @ str_float (x0 r) @ ''_'' @ str_float (y0 r)"

fun store_instances ::
  "(rat \<Rightarrow> string) \<Rightarrow> page \<Rightarrow> int \<Rightarrow> string \<Rightarrow> string \<Rightarrow> rect list \<Rightarrow> text_positions
     \<Rightarrow> text_positions" where
  \<comment> \<open>the loop of line 72\<close>
  "store_instances str_float pg page_num search_text search_replacement [] tp = tp"
| "store_instances str_float pg page_num search_text search_replacement (r # rs) tp =
     store_instances str_float pg page_num search_text search_replacement rs
       (AList.update (position_key str_float page_num search_text r)
          \<lparr>occ_rect = r, replacement = search_replacement, occ_span_info = style_probe pg r\<rparr>
          tp)"

fun search_pairs ::
  "(rat \<Rightarrow> string) \<Rightarrow> page \<Rightarrow> int \<Rightarrow> (string \<times> string) list \<Rightarrow> text_positions
     \<Rightarrow> text_positions" where
  \<comment> \<open>the loop of line 65\<close>
  "search_pairs str_float pg page_num [] tp = tp"
| "search_pairs str_float pg page_num ((search_text, search_replacement) # rest) tp =
     (let text_instances = search_for pg search_text
      in search_pairs str_float pg page_num rest
           (if text_instances \<noteq> []
            then store_instances str_float pg page_num search_text search_replacement
                   text_instances tp
            else tp))"

definition doc_getitem :: "document \<Rightarrow> int \<Rightarrow> page option" where
  \<comment> \<open>\<^verbatim>\<open>doc[i]\<close> of the library: \<^verbatim>\<open>IndexError\<close> from the page count on, and a negative
      number counts from the end (the page count is added until it is no longer
      negative); \<open>None\<close> stands for the call not returning a page\<close>
  "doc_getitem doc i =
     (let n = int (length (pages doc))
      in if i \<ge> n \<or> n = 0 then None else Some (pages doc ! nat (i mod n)))"

record locate_state =
  positions :: text_positions
  not_found_elements :: "not_found list"

definition locate_element ::
  "(rat \<Rightarrow> string) \<Rightarrow> document \<Rightarrow> element \<Rightarrow> locate_state \<Rightarrow> locate_state option" where
  \<comment> \<open>one round of the loop of line 41\<close>
  "locate_element str_float doc el st =
     (let page_num = py_get (el_page el) 1 - 1;
          original_text = py_get (el_value el) '''';
          element_type = py_get (el_type el) ''Unknown'';
          replacement_text = py_get (el_replacement el) ''XXXXX'';
          to_search = elements_to_search element_type original_text replacement_text
      in if page_num < int (length (pages doc)) then
           (case doc_getitem doc page_num of
              None \<Rightarrow> None
            | Some pg \<Rightarrow>
                Some \<lparr>positions = search_pairs str_float pg page_num to_search (positions st),
                      not_found_elements =
                        (if search_for pg original_text = []
                         then not_found_elements st @
                              [\<lparr>nf_type = element_type, nf_value = original_text,
                                nf_page = page_num + 1, nf_replacement = replacement_text\<rparr>]
                         else not_found_elements st)\<rparr>)
         else Some st)"

fun locate_all ::
  "(rat \<Rightarrow> string) \<Rightarrow> document \<Rightarrow> element list \<Rightarrow> locate_state \<Rightarrow> locate_state option" where
  \<comment> \<open>the first pass, lines 41 to 123\<close>
  "locate_all str_float doc [] st = Some st"
| "locate_all str_float doc (el # els) st =
     (case locate_element str_float doc el st of
        None \<Rightarrow> None
      | Some st' \<Rightarrow> locate_all str_float doc els st')"

definition empty_state :: locate_state where
  "empty_state = \<lparr>positions = [], not_found_elements = []\<rparr>"

section \<open>Second pass of \<^verbatim>\<open>anonymize_pdf\<close>: blanking and insertion\<close>

text \<open>
  The second pass only calls the library, so it is modelled by the calls it makes, in
  order. What the library answers is a parameter: the fonts of a page (read after the
  redactions of that page are applied), whether \<^verbatim>\<open>page.insert_text\<close> returns or raises,
  and whether \<^verbatim>\<open>fitz.Font(name)\<close> returns or raises. \<^verbatim>\<open>fitz.Font()\<close> without a name, and
  the \<^verbatim>\<open>TextWriter\<close> calls, stand outside every \<^verbatim>\<open>try\<close> of the source and are taken to
  return.
\<close>

datatype face = Named string | Base

datatype event =
    Add_redact_annot nat rect
  | Apply_redactions nat
  | Insert_text nat "rat \<times> rat" string string rat int bool
  | Font_call string bool
  | Font_base_call
  | Write_text nat "rat \<times> rat" string face rat

record library =
  get_fonts :: "nat \<Rightarrow> string list list"
  insert_text_returns :: "nat \<Rightarrow> rat \<times> rat \<Rightarrow> string \<Rightarrow> string \<Rightarrow> rat \<Rightarrow> int \<Rightarrow> bool"
  Font_returns :: "string \<Rightarrow> bool"

definition page_entries :: "nat \<Rightarrow> text_positions \<Rightarrow> text_positions" where
  \<comment> \<open>the entries chosen by \<^verbatim>\<open>key.startswith(f"{page_num}_")\<close>, lines 131/132 and 153/154\<close>
  "page_entries page_num tp =
     filter (\<lambda>(key, info). startswith key (str_int (int page_num) @ ''_'')) tp"

fun build_font_map :: "string list list \<Rightarrow> (string \<times> string) list \<Rightarrow> (string \<times> string) list" where
  \<comment> \<open>lines 145 to 150\<close>
  "build_font_map [] font_map = font_map"
| "build_font_map (font_info # rest) font_map =
     build_font_map rest
       (if length font_info \<ge> 5
        then AList.update (font_info ! 3) (font_info ! 4) font_map
        else font_map)"

definition font_attempts :: "string \<Rightarrow> string list" where
  \<comment> \<open>lines 183 to 188\<close>
  "font_attempts original_font =
     [original_font, filter (\<lambda>c. c \<noteq> CHR ''-'') original_font, ''helv'', ''Times-Roman'']"

fun try_fonts :: "library \<Rightarrow> string list \<Rightarrow> event list \<times> face option" where
  \<comment> \<open>the loop of line 190: leaves at the first name that loads\<close>
  "try_fonts lib [] = ([], None)"
| "try_fonts lib (font_name # rest) =
     (if Font_returns lib font_name then ([Font_call font_name True], Some (Named font_name))
      else (case try_fonts lib rest of (evs, found) \<Rightarrow> (Font_call font_name False # evs, found)))"

definition insertion_point :: "occurrence \<Rightarrow> rat \<times> rat" where
  \<comment> \<open>lines 166/167 and 202/203\<close>
  "insertion_point info =
     (let baseline_offset = size (occ_span_info info) * 0.8
      in (x0 (occ_rect info), y0 (occ_rect info) + baseline_offset))"

definition write_with_textwriter :: "library \<Rightarrow> nat \<Rightarrow> occurrence \<Rightarrow> event list" where
  \<comment> \<open>lines 179 to 207\<close>
  "write_with_textwriter lib page_num info =
     (case try_fonts lib (font_attempts (font (occ_span_info info))) of
        (evs, found) \<Rightarrow>
          (case found of
             Some f \<Rightarrow>
               evs @ [Write_text page_num (insertion_point info) (replacement info) f
                        (size (occ_span_info info))]
           | None \<Rightarrow>
               evs @ [Font_base_call,
                      Write_text page_num (insertion_point info) (replacement info) Base
                        (size (occ_span_info info))]))"

definition insert_replacement ::
  "library \<Rightarrow> nat \<Rightarrow> (string \<times> string) list \<Rightarrow> occurrence \<Rightarrow> event list" where
  \<comment> \<open>one round of the loop of line 153, for an entry of the page\<close>
  "insert_replacement lib page_num font_map info =
     (let original_font = font (occ_span_info info);
          font_size = size (occ_span_info info)
      in case map_of font_map original_font of
           Some ref_name \<Rightarrow>
             (let returned = insert_text_returns lib page_num (insertion_point info)
                               (replacement info) ref_name font_size (color (occ_span_info info))
              in Insert_text page_num (insertion_point info) (replacement info) ref_name
                   font_size (color (occ_span_info info)) returned
                 # (if returned then [] else write_with_textwriter lib page_num info))
         | None \<Rightarrow> write_with_textwriter lib page_num info)"

definition blank_page :: "nat \<Rightarrow> text_positions \<Rightarrow> event list" where
  \<comment> \<open>lines 129 to 141\<close>
  "blank_page page_num tp =
     (let redact_rects = map (\<lambda>(key, info). occ_rect info) (page_entries page_num tp)
      in map (Add_redact_annot page_num) redact_rects @ [Apply_redactions page_num])"

definition fill_page :: "library \<Rightarrow> nat \<Rightarrow> text_positions \<Rightarrow> event list" where
  \<comment> \<open>lines 143 to 207\<close>
  "fill_page lib page_num tp =
     (let font_map = build_font_map (get_fonts lib page_num) []
      in concat (map (\<lambda>(key, info). insert_replacement lib page_num font_map info)
                   (page_entries page_num tp)))"

definition process_page :: "library \<Rightarrow> text_positions \<Rightarrow> nat \<Rightarrow> event list" where
  \<comment> \<open>one round of the loop of line 126\<close>
  "process_page lib tp page_num = blank_page page_num tp @ fill_page lib page_num tp"

definition second_pass :: "library \<Rightarrow> document \<Rightarrow> text_positions \<Rightarrow> event list" where
  \<comment> \<open>lines 126 to 207: \<^verbatim>\<open>for page_num in range(len(doc))\<close>\<close>
  "second_pass lib doc tp = concat (map (process_page lib tp) [0..<length (pages doc)])"

text \<open>The two phases of a page, read off the calls.\<close>

fun is_blanking :: "event \<Rightarrow> bool" where
  "is_blanking (Add_redact_annot p r) = True"
| "is_blanking (Apply_redactions p) = True"
| "is_blanking e = False"

fun is_insertion :: "event \<Rightarrow> bool" where
  "is_insertion (Insert_text p pt t f s c ok) = True"
| "is_insertion (Write_text p pt t f s) = True"
| "is_insertion e = False"

fun event_page :: "event \<Rightarrow> nat option" where
  "event_page (Add_redact_annot p r) = Some p"
| "event_page (Apply_redactions p) = Some p"
| "event_page (Insert_text p pt t f s c ok) = Some p"
| "event_page (Write_text p pt t f s) = Some p"
| "event_page e = None"

section \<open>Metadata and summary\<close>

definition attribution :: string where
  "attribution = ''holomask https://holofin.ai''"

definition new_metadata :: "(string \<times> string option) list option \<Rightarrow> (string \<times> string option) list" where
  \<comment> \<open>lines 210 and 211; an empty or missing dictionary is falsy\<close>
  "new_metadata original_metadata =
     AList.update ''author'' (Some attribution)
       (case original_metadata of
          None \<Rightarrow> []
        | Some m \<Rightarrow> if m \<noteq> [] then m else [])"

fun count_types :: "element list \<Rightarrow> (string \<times> int) list \<Rightarrow> (string \<times> int) list" where
  \<comment> \<open>lines 215 to 218\<close>
  "count_types [] by_type = by_type"
| "count_types (el # els) by_type =
     (let element_type = py_get (el_type el) ''Unknown''
      in count_types els
           (AList.update element_type (py_get (map_of by_type element_type) 0 + 1) by_type))"

record analysis =
  sensitive_elements :: "element list option"

record summary =
  total_elements_found :: int
  total_replacements :: int
  elements_by_type :: "(string \<times> int) list"
  ai_detected_count :: int
  actually_found_count :: int
  not_found_count :: int

definition make_summary :: "analysis \<Rightarrow> locate_state \<Rightarrow> summary" where
  \<comment> \<open>lines 214 to 227\<close>
  "make_summary analysis_result st =
     \<lparr>total_elements_found = int (length (py_get (sensitive_elements analysis_result) [])),
      total_replacements = int (length (positions st)),
      elements_by_type = count_types (py_get (sensitive_elements analysis_result) []) [],
      ai_detected_count = int (length (py_get (sensitive_elements analysis_result) [])),
      actually_found_count = int (length (positions st)),
      not_found_count = int (length (not_found_elements st))\<rparr>"

text \<open>
  What \<^verbatim>\<open>anonymize_pdf\<close> leaves behind: \<^verbatim>\<open>text_positions\<close>, the calls made on the
  pages, the dictionary handed to \<^verbatim>\<open>doc.set_metadata\<close> (the metadata of the saved
  document), the summary, and \<^verbatim>\<open>not_found_in_pdf\<close>, a key that is only set when the list
  is not empty.
\<close>

record outcome =
  out_positions :: text_positions
  out_events :: "event list"
  out_metadata :: "(string \<times> string option) list"
  anonymization_summary :: summary
  not_found_in_pdf :: "not_found list option"

definition anonymize_pdf ::
  "(rat \<Rightarrow> string) \<Rightarrow> library \<Rightarrow> document \<Rightarrow> analysis \<Rightarrow> outcome option" where
  \<comment> \<open>lines 31 to 242, after the oracle has answered with \<open>analysis_result\<close>\<close>
  "anonymize_pdf str_float lib doc analysis_result =
     (let original_metadata = metadata doc
      in case locate_all str_float doc (py_get (sensitive_elements analysis_result) [])
                empty_state of
           None \<Rightarrow> None
         | Some st \<Rightarrow>
             Some \<lparr>out_positions = positions st,
                   out_events = second_pass lib doc (positions st),
                   out_metadata = new_metadata original_metadata,
                   anonymization_summary = make_summary analysis_result st,
                   not_found_in_pdf =
                     (if not_found_elements st \<noteq> [] then Some (not_found_elements st)
                      else None)\<rparr>)"

section \<open>Text extraction of \<^verbatim>\<open>MistralAnalyzer.extract_text_from_pdf\<close>\<close>

text \<open>
  \<^verbatim>\<open>seen_positions\<close> is a Python set of rectangles: a list without duplicates here. The
  loop over it only asks whether some member overlaps, so its order does not show.
\<close>

fun overlaps_seen :: "rect \<Rightarrow> rect list \<Rightarrow> bool" where
  \<comment> \<open>mistral_analyzer.py, lines 121 to 131\<close>
  "overlaps_seen line_rect [] = False"
| "overlaps_seen line_rect (seen_rect # rest) =
     (if intersects line_rect seen_rect then
        (let intersection = intersect line_rect seen_rect;
             overlap_ratio = (if get_area line_rect > 0
                              then get_area intersection / get_area line_rect
                              else 0)
         in if overlap_ratio > 0.5 then True else overlaps_seen line_rect rest)
      else overlaps_seen line_rect rest)"

record extract_state =
  page_text_parts :: "string list"
  seen_positions :: "rect list"

definition line_is_overlapping :: "line \<Rightarrow> rect list \<Rightarrow> bool" where
  \<comment> \<open>\<^verbatim>\<open>is_overlapping\<close> after line 131: stays False for a line without \<^verbatim>\<open>bbox\<close>\<close>
  "line_is_overlapping l seen =
     (case line_bbox l of None \<Rightarrow> False | Some line_rect \<Rightarrow> overlaps_seen line_rect seen)"

definition line_text :: "line \<Rightarrow> string" where
  \<comment> \<open>lines 137 and 138\<close>
  "line_text l = concat (map (\<lambda>s. py_get (span_text s) []) (line_spans l))"

definition process_line :: "line \<Rightarrow> extract_state \<Rightarrow> extract_state" where
  \<comment> \<open>one round of the loop of line 116\<close>
  "process_line l st =
     (let is_overlapping = line_is_overlapping l (seen_positions st)
      in \<lparr>page_text_parts =
            (if strip (line_text l) \<noteq> [] \<and> \<not> is_overlapping
             then page_text_parts st @ [line_text l]
             else page_text_parts st),
          seen_positions =
            (case line_bbox l of
               None \<Rightarrow> seen_positions st
             | Some line_rect \<Rightarrow>
                 if \<not> is_overlapping then List.insert line_rect (seen_positions st)
                 else seen_positions st)\<rparr>)"

fun process_lines :: "line list \<Rightarrow> extract_state \<Rightarrow> extract_state" where
  "process_lines [] st = st"
| "process_lines (l # ls) st = process_lines ls (process_line l st)"

fun process_blocks :: "block list \<Rightarrow> extract_state \<Rightarrow> extract_state" where
  \<comment> \<open>the loop of line 112; a block without \<^verbatim>\<open>lines\<close> is passed over\<close>
  "process_blocks [] st = st"
| "process_blocks (b # bs) st =
     (case block_lines b of
        None \<Rightarrow> process_blocks bs st
      | Some ls \<Rightarrow> process_blocks bs (process_lines ls st))"

definition extract_page_lines :: "block list \<Rightarrow> string list" where
  \<comment> \<open>\<^verbatim>\<open>page_text_parts\<close> of one page, from the blocks of \<^verbatim>\<open>get_text("dict", sort=True)\<close>\<close>
  "extract_page_lines blocks =
     page_text_parts (process_blocks blocks \<lparr>page_text_parts = [], seen_positions = []\<rparr>)"

section \<open>The font resolution chain as the specification words it\<close>

text \<open>
  The specification lists six strategies, tried in order until one succeeds. Here each
  strategy is an attempt that makes library calls and reports success, and the chain is the
  combinator "first success wins"; the theorems compare it with \<open>insert_replacement\<close>.
\<close>

datatype strategy =
    Embedded_page_font
  | Exact_name
  | Separators_stripped
  | Standard_sans
  | Standard_serif
  | Base_face

definition strategy_order :: "strategy list" where
  "strategy_order =
     [Embedded_page_font, Exact_name, Separators_stripped, Standard_sans, Standard_serif,
      Base_face]"

fun spec_font_call :: "library \<Rightarrow> string \<Rightarrow> event list \<times> bool" where
  "spec_font_call lib font_name =
     ([Font_call font_name (Font_returns lib font_name)], Font_returns lib font_name)"

fun spec_attempt ::
  "library \<Rightarrow> nat \<Rightarrow> (string \<times> string) list \<Rightarrow> occurrence \<Rightarrow> strategy \<Rightarrow> event list \<times> bool" where
  "spec_attempt lib page_num font_map info Embedded_page_font =
     (case map_of font_map (font (occ_span_info info)) of
        None \<Rightarrow> ([], False)
      | Some ref_name \<Rightarrow>
          (let returned = insert_text_returns lib page_num (insertion_point info)
                            (replacement info) ref_name (size (occ_span_info info))
                            (color (occ_span_info info))
           in ([Insert_text page_num (insertion_point info) (replacement info) ref_name
                  (size (occ_span_info info)) (color (occ_span_info info)) returned],
               returned)))"
| "spec_attempt lib page_num font_map info Exact_name =
     spec_font_call lib (font (occ_span_info info))"
| "spec_attempt lib page_num font_map info Separators_stripped =
     spec_font_call lib (filter (\<lambda>c. c \<noteq> CHR ''-'') (font (occ_span_info info)))"
| "spec_attempt lib page_num font_map info Standard_sans = spec_font_call lib ''helv''"
| "spec_attempt lib page_num font_map info Standard_serif = spec_font_call lib ''Times-Roman''"
| "spec_attempt lib page_num font_map info Base_face = ([Font_base_call], True)"

fun spec_first_success ::
  "(strategy \<Rightarrow> event list \<times> bool) \<Rightarrow> strategy list \<Rightarrow> event list \<times> strategy option" where
  "spec_first_success try [] = ([], None)"
| "spec_first_success try (s # rest) =
     (case try s of
        (evs, True) \<Rightarrow> (evs, Some s)
      | (evs, False) \<Rightarrow>
          (case spec_first_success try rest of (evs', found) \<Rightarrow> (evs @ evs', found)))"

fun spec_face :: "occurrence \<Rightarrow> strategy \<Rightarrow> face option" where
  \<comment> \<open>the face a strategy draws with; the embedded font is drawn by its own attempt\<close>
  "spec_face info Embedded_page_font = None"
| "spec_face info Exact_name = Some (Named (font (occ_span_info info)))"
| "spec_face info Separators_stripped =
     Some (Named (filter (\<lambda>c. c \<noteq> CHR ''-'') (font (occ_span_info info))))"
| "spec_face info Standard_sans = Some (Named ''helv'')"
| "spec_face info Standard_serif = Some (Named ''Times-Roman'')"
| "spec_face info Base_face = Some Base"

definition spec_draw :: "nat \<Rightarrow> occurrence \<Rightarrow> strategy \<Rightarrow> event list" where
  "spec_draw page_num info s =
     (case spec_face info s of
        None \<Rightarrow> []
      | Some f \<Rightarrow>
          [Write_text page_num (insertion_point info) (replacement info) f
             (size (occ_span_info info))])"

section \<open>Sample inputs\<close>

text \<open>
  The page of the test suite (tests/conftest.py): one line of text, "John Doe", set in
  Helvetica. \<open>str_float_whole\<close> renders a float of integral value as Python does
  (\<^verbatim>\<open>72.0\<close>); the sample coordinates are all integral.
\<close>

definition str_float_whole :: "rat \<Rightarrow> string" where
  "str_float_whole q = str_int \<lfloor>q\<rfloor> @ ''.0''"

definition name_rect :: rect where
  "name_rect = \<lparr>x0 = 72, y0 = 61, x1 = 120, y1 = 75\<rparr>"

definition first_name_rect :: rect where
  "first_name_rect = \<lparr>x0 = 72, y0 = 61, x1 = 96, y1 = 75\<rparr>"

definition sample_span :: span where
  "sample_span =
     \<lparr>span_bbox = name_rect, span_size = Some 12, span_font = Some ''Helvetica'',
      span_color = Some 0, span_text = Some ''John Doe''\<rparr>"

definition sample_page :: page where
  "sample_page =
     \<lparr>search_for = (\<lambda>s. if s = ''John Doe'' then [name_rect]
                          else if s = ''John'' then [first_name_rect] else []),
      text_dict =
        [\<lparr>block_lines = Some [\<lparr>line_bbox = Some name_rect, line_spans = [sample_span]\<rparr>]\<rparr>]\<rparr>"

definition sample_doc :: document where
  "sample_doc =
     \<lparr>pages = [sample_page],
      metadata = Some [(''title'', Some ''Test Document''), (''author'', Some ''Original Author'')]\<rparr>"

definition sample_library :: library where
  "sample_library =
     \<lparr>get_fonts =
        (\<lambda>n. [[''5'', ''n/a'', ''Type1'', ''Helvetica'', ''helv'', ''WinAnsiEncoding'']]),
      insert_text_returns = (\<lambda>n pt t f s c. True),
      Font_returns = (\<lambda>name. name = ''helv'' \<or> name = ''Times-Roman'')\<rparr>"

definition record_john_doe :: element where
  "record_john_doe =
     \<lparr>el_type = Some ''Person Name'', el_value = Some ''John Doe'',
      el_replacement = Some ''Jane Smith'', el_page = Some 1\<rparr>"

definition record_john_roe :: element where
  "record_john_roe =
     \<lparr>el_type = Some ''Person Name'', el_value = Some ''John Roe'',
      el_replacement = Some ''Jane Smith'', el_page = Some 1\<rparr>"

definition record_page_zero :: element where
  "record_page_zero =
     \<lparr>el_type = Some ''Person Name'', el_value = Some ''John Doe'',
      el_replacement = Some ''Jane Smith'', el_page = Some 0\<rparr>"

definition record_absent_page_zero :: element where
  "record_absent_page_zero =
     \<lparr>el_type = Some ''IBAN'', el_value = Some ''FR1234567890123456789012345'',
      el_replacement = Some ''FR9876543210987654321098765'', el_page = Some 0\<rparr>"

definition record_beyond_last_page :: element where
  "record_beyond_last_page =
     \<lparr>el_type = None, el_value = Some ''John Doe'',
      el_replacement = Some ''Jane Smith'', el_page = Some 5\<rparr>"

definition record_empty_replacement :: element where
  "record_empty_replacement =
     \<lparr>el_type = Some ''Person Name'', el_value = Some ''John Doe'',
      el_replacement = Some [], el_page = Some 1\<rparr>"

definition unknown_font_occurrence :: occurrence where
  "unknown_font_occurrence =
     \<lparr>occ_rect = name_rect, replacement = ''Jane Smith'',
      occ_span_info = \<lparr>font = ''Roboto-Bold'', size = 12, color = 0\<rparr>\<rparr>"

definition roboto_library :: library where
  \<comment> \<open>a library that knows the face under the name without hyphen only\<close>
  "roboto_library =
     \<lparr>get_fonts = (\<lambda>n. []),
      insert_text_returns = (\<lambda>n pt t f s c. False),
      Font_returns = (\<lambda>name. name = ''RobotoBold'' \<or> name = ''helv'')\<rparr>"

definition blank_line :: line where
  "blank_line =
     \<lparr>line_bbox = Some name_rect,
      line_spans = [\<lparr>span_bbox = name_rect, span_size = Some 12, span_font = Some ''Helvetica'',
                     span_color = Some 0, span_text = Some '' ''\<rparr>]\<rparr>"

definition overlay_line :: line where
  \<comment> \<open>a stamp over the left half of the name, covered by it for more than half\<close>
  "overlay_line =
     \<lparr>line_bbox = Some first_name_rect,
      line_spans = [\<lparr>span_bbox = first_name_rect, span_size = Some 12,
                     span_font = Some ''Helvetica'', span_color = Some 0,
                     span_text = Some ''COPY''\<rparr>]\<rparr>"

definition scaled_span :: span where
  \<comment> \<open>reported size 10, visual height 20\<close>
  "scaled_span =
     \<lparr>span_bbox = \<lparr>x0 = 72, y0 = 60, x1 = 120, y1 = 80\<rparr>, span_size = Some 10,
      span_font = Some ''Helvetica'', span_color = Some 0, span_text = Some ''John Doe''\<rparr>"

definition scaled_page :: page where
  "scaled_page =
     \<lparr>search_for = (\<lambda>s. if s = ''John Doe'' then [name_rect] else []),
      text_dict =
        [\<lparr>block_lines = None\<rparr>,
         \<lparr>block_lines =
            Some [\<lparr>line_bbox = None, line_spans = [scaled_span, sample_span]\<rparr>]\<rparr>]\<rparr>"

definition sample_positions :: text_positions where
  \<comment> \<open>\<^verbatim>\<open>text_positions\<close> after \<open>record_john_doe\<close> is located on the sample page\<close>
  "sample_positions =
     [(''0_John Doe_72.0_61.0'',
       \<lparr>occ_rect = name_rect, replacement = ''Jane Smith'',
        occ_span_info = \<lparr>font = ''Helvetica'', size = 12, color = 0\<rparr>\<rparr>),
      (''0_John_72.0_61.0'',
       \<lparr>occ_rect = first_name_rect, replacement = ''Jane'',
        occ_span_info = \<lparr>font = ''Helvetica'', size = 12, color = 0\<rparr>\<rparr>)]"

definition record_no_replacement :: element where
  \<comment> \<open>only \<^verbatim>\<open>value\<close> is present\<close>
  "record_no_replacement =
     \<lparr>el_type = None, el_value = Some ''John Doe'', el_replacement = None, el_page = None\<rparr>"

definition record_absent_iban :: element where
  "record_absent_iban =
     \<lparr>el_type = Some ''IBAN'', el_value = Some ''FR1234567890123456789012345'',
      el_replacement = Some ''FR9876543210987654321098765'', el_page = Some 1\<rparr>"

definition nbsp_name :: string where
  \<comment> \<open>"John Doe" written with a no-break space\<close>
  "nbsp_name = ''John'' @ [CHR 0xA0] @ ''Doe''"

definition nbsp_line :: line where
  \<comment> \<open>a line whose text is a no-break space and a next-line character\<close>
  "nbsp_line =
     \<lparr>line_bbox = Some name_rect,
      line_spans = [\<lparr>span_bbox = name_rect, span_size = Some 12, span_font = Some ''Helvetica'',
                     span_color = Some 0, span_text = Some [CHR 0xA0, CHR 0x85]\<rparr>]\<rparr>"

section \<open>Lemmas on association lists and strings\<close>

lemma set_update_subset: "set (AList.update k v al) \<subseteq> insert (k, v) (set al)"
  by (induction al) auto

lemma split_from_tokens:
  "t \<in> set (split_from cur s) \<Longrightarrow> t \<noteq> []"
  by (induction cur s rule: split_from.induct) (auto split: if_splits)

lemma split_tokens_nonempty: "t \<in> set (split s) \<Longrightarrow> t \<noteq> []"
  unfolding split_def by (rule split_from_tokens)

lemma split_hd_last_nonempty:
  assumes "length (split r) \<ge> 2"
  shows "hd (split r) \<noteq> []" and "last (split r) \<noteq> []"
proof -
  from assms have ne: "split r \<noteq> []" by auto
  show "hd (split r) \<noteq> []"
    using split_tokens_nonempty [OF hd_in_set [OF ne]] .
  show "last (split r) \<noteq> []"
    using split_tokens_nonempty [OF last_in_set [OF ne]] .
qed

lemma split_from_concat:
  "concat (split_from cur s) = cur @ filter (\<lambda>c. \<not> is_space c) s"
  by (induction cur s rule: split_from.induct) auto

lemma split_from_chars:
  "t \<in> set (split_from cur s) \<Longrightarrow> x \<in> set t \<Longrightarrow> x \<in> set cur \<or> (x \<in> set s \<and> \<not> is_space x)"
proof (induction cur s rule: split_from.induct)
  case (1 cur)
  then show ?case by (simp split: if_splits)
next
  case (2 cur c cs)
  show ?case
  proof (cases "is_space c")
    case sp: True
    show ?thesis
    proof (cases "cur = []")
      case True
      with sp "2.prems" have "t \<in> set (split_from [] cs)" by simp
      from "2.IH"(1) [OF sp True this "2.prems"(2)] show ?thesis by simp
    next
      case False
      with sp "2.prems" have "t = cur \<or> t \<in> set (split_from [] cs)" by simp
      then show ?thesis
      proof
        assume "t = cur"
        with "2.prems"(2) show ?thesis by simp
      next
        assume "t \<in> set (split_from [] cs)"
        from "2.IH"(2) [OF sp False this "2.prems"(2)] show ?thesis by simp
      qed
    qed
  next
    case False
    with "2.prems" have "t \<in> set (split_from (cur @ [c]) cs)" by simp
    from "2.IH"(3) [OF False this "2.prems"(2)] False show ?thesis by auto
  qed
qed

text \<open>
  \<open>split\<close> is Python's \<^verbatim>\<open>str.split()\<close>: its tokens are not empty, hold no whitespace, and
  put together give the string without its whitespace. \<open>strip\<close> leaves nothing exactly of
  the strings that are whitespace throughout.
\<close>

lemma split_tokens:
  "t \<in> set (split s) \<Longrightarrow> t \<noteq> [] \<and> (\<forall>c\<in>set t. \<not> is_space c)"
proof
  assume t: "t \<in> set (split s)"
  then show "t \<noteq> []" by (rule split_tokens_nonempty)
  show "\<forall>c\<in>set t. \<not> is_space c"
  proof
    fix c assume "c \<in> set t"
    with t split_from_chars [of t "[]" s c] show "\<not> is_space c" by (simp add: split_def)
  qed
qed

lemma split_concat: "concat (split s) = filter (\<lambda>c. \<not> is_space c) s"
  by (simp add: split_def split_from_concat)

lemma strip_empty_iff: "strip s = [] \<longleftrightarrow> (\<forall>c\<in>set s. is_space c)"
proof -
  have "strip s = [] \<longleftrightarrow> (\<forall>c\<in>set (dropWhile is_space s). is_space c)"
    by (simp add: strip_def dropWhile_eq_Nil_conv)
  also have "\<dots> \<longleftrightarrow> dropWhile is_space s = []"
  proof
    assume a: "\<forall>c\<in>set (dropWhile is_space s). is_space c"
    show "dropWhile is_space s = []"
    proof (rule ccontr)
      assume n: "dropWhile is_space s \<noteq> []"
      then have "\<not> is_space (hd (dropWhile is_space s))" by (rule hd_dropWhile)
      moreover from n have "hd (dropWhile is_space s) \<in> set (dropWhile is_space s)" by simp
      ultimately show False using a by blast
    qed
  next
    assume "dropWhile is_space s = []"
    then show "\<forall>c\<in>set (dropWhile is_space s). is_space c" by (simp only: list.set ball_empty)
  qed
  also have "\<dots> \<longleftrightarrow> (\<forall>c\<in>set s. is_space c)"
    by (simp add: dropWhile_eq_Nil_conv)
  finally show ?thesis .
qed

lemma concat_map_split:
  "concat (map f ps) = before @ e # after \<Longrightarrow>
     \<exists>ps1 q ps2 u v. ps = ps1 @ q # ps2 \<and> f q = u @ e # v
        \<and> before = concat (map f ps1) @ u \<and> after = v @ concat (map f ps2)"
proof (induction ps arbitrary: before)
  case Nil
  then show ?case by simp
next
  case (Cons q ps)
  from Cons.prems have "f q @ concat (map f ps) = before @ e # after" by simp
  then obtain us where
    "(f q = before @ us \<and> us @ concat (map f ps) = e # after)
     \<or> (f q @ us = before \<and> concat (map f ps) = us @ e # after)"
    unfolding append_eq_append_conv2 by blast
  then show ?case
  proof
    assume a: "f q = before @ us \<and> us @ concat (map f ps) = e # after"
    show ?thesis
    proof (cases us)
      case Nil
      with a have "concat (map f ps) = [] @ e # after" and fq: "f q = before" by simp_all
      from Cons.IH [OF this(1)] obtain ps1 q' ps2 u v where
        "ps = ps1 @ q' # ps2" "f q' = u @ e # v" "[] = concat (map f ps1) @ u"
        "after = v @ concat (map f ps2)" by blast
      then have "q # ps = (q # ps1) @ q' # ps2 \<and> f q' = u @ e # v
          \<and> before = concat (map f (q # ps1)) @ u \<and> after = v @ concat (map f ps2)"
        using fq by simp
      then show ?thesis by blast
    next
      case (Cons x us')
      with a have "q # ps = [] @ q # ps \<and> f q = before @ e # us'
          \<and> before = concat (map f []) @ before \<and> after = us' @ concat (map f ps)"
        by simp
      then show ?thesis by blast
    qed
  next
    assume b: "f q @ us = before \<and> concat (map f ps) = us @ e # after"
    from Cons.IH [of us] b obtain ps1 q' ps2 u v where
      "ps = ps1 @ q' # ps2" "f q' = u @ e # v" "us = concat (map f ps1) @ u"
      "after = v @ concat (map f ps2)" by blast
    then have "q # ps = (q # ps1) @ q' # ps2 \<and> f q' = u @ e # v
        \<and> before = concat (map f (q # ps1)) @ u \<and> after = v @ concat (map f ps2)"
      using b by auto
    then show ?thesis by blast
  qed
qed

lemma find_append:
  "find P (xs @ ys) = (case find P xs of Some x \<Rightarrow> Some x | None \<Rightarrow> find P ys)"
  by (induction xs) auto

text \<open>
  The keys of \<^verbatim>\<open>text_positions\<close> start with the page number and an underscore. The decimal
  rendering of an integer has no underscore and determines the integer, so the prefix test
  of the second pass selects exactly the keys made for that page number: page 1 is not
  taken for page 10, and a key made for a negative page number is selected for no page.
\<close>

lemma digit_char_code: "d < 10 \<Longrightarrow> of_char (digit_char d) = 48 + d"
  by (simp add: digit_char_def)

lemma digit_char_inj:
  assumes "d < 10" and "d' < 10" and "digit_char d = digit_char d'"
  shows "d = d'"
proof -
  have "(48 + d :: nat) = of_char (digit_char d)"
    using assms(1) by (simp only: digit_char_code)
  also have "\<dots> = of_char (digit_char d')" by (simp only: assms(3))
  also have "\<dots> = 48 + d'" using assms(2) by (simp only: digit_char_code)
  finally show ?thesis by simp
qed

lemma digit_char_plain:
  assumes "d < 10"
  shows "digit_char d \<noteq> CHR ''_''" and "digit_char d \<noteq> CHR ''-''"
proof -
  have "(of_char (digit_char d) :: nat) \<noteq> of_char CHR ''_''"
    using assms by (simp add: digit_char_code)
  then show "digit_char d \<noteq> CHR ''_''" by auto
  have "(of_char (digit_char d) :: nat) \<noteq> of_char CHR ''-''"
    using assms by (simp add: digit_char_code)
  then show "digit_char d \<noteq> CHR ''-''" by auto
qed

lemma str_nat_digits: "c \<in> set (str_nat n) \<Longrightarrow> \<exists>d<10. c = digit_char d"
proof (induction n rule: str_nat.induct)
  case (1 n)
  show ?case
  proof (cases "n < 10")
    case True
    with "1.prems" show ?thesis by (auto simp: str_nat.simps [of n])
  next
    case False
    with "1.prems" have "c \<in> set (str_nat (n div 10)) \<or> c = digit_char (n mod 10)"
      by (auto simp: str_nat.simps [of n])
    then show ?thesis
    proof
      assume "c \<in> set (str_nat (n div 10))"
      with "1.IH" False show ?thesis by simp
    next
      assume "c = digit_char (n mod 10)"
      moreover have "n mod 10 < 10" by simp
      ultimately show ?thesis by blast
    qed
  qed
qed

lemma str_nat_nonempty: "str_nat n \<noteq> []"
  by (subst str_nat.simps) simp

lemma str_nat_inj: "str_nat m = str_nat n \<Longrightarrow> m = n"
proof (induction m arbitrary: n rule: str_nat.induct)
  case (1 m)
  show ?case
  proof (cases "m < 10")
    case True
    note m = this
    show ?thesis
    proof (cases "n < 10")
      case True
      with m "1.prems" show ?thesis
        by (simp add: str_nat.simps [of m] str_nat.simps [of n] digit_char_inj)
    next
      case False
      with m "1.prems" have "[digit_char m] = str_nat (n div 10) @ [digit_char (n mod 10)]"
        by (simp add: str_nat.simps [of m] str_nat.simps [of n])
      then have "str_nat (n div 10) = []" by simp
      with str_nat_nonempty show ?thesis by blast
    qed
  next
    case False
    note m = this
    show ?thesis
    proof (cases "n < 10")
      case True
      with m "1.prems" have "str_nat (m div 10) @ [digit_char (m mod 10)] = [digit_char n]"
        by (simp add: str_nat.simps [of m] str_nat.simps [of n])
      then have "str_nat (m div 10) = []" by simp
      with str_nat_nonempty show ?thesis by blast
    next
      case False
      with m "1.prems" have
        "str_nat (m div 10) @ [digit_char (m mod 10)] = str_nat (n div 10) @ [digit_char (n mod 10)]"
        by (simp add: str_nat.simps [of m] str_nat.simps [of n])
      then have a: "str_nat (m div 10) = str_nat (n div 10)"
        and b: "digit_char (m mod 10) = digit_char (n mod 10)" by simp_all
      from "1.IH" [OF m a] have "m div 10 = n div 10" .
      moreover from b have "m mod 10 = n mod 10" by (simp add: digit_char_inj)
      ultimately show ?thesis by (metis div_mult_mod_eq)
    qed
  qed
qed

lemma str_int_plain: "CHR ''_'' \<notin> set (str_int i)"
proof
  assume "CHR ''_'' \<in> set (str_int i)"
  then have "CHR ''_'' \<in> set (str_nat (nat (- i))) \<or> CHR ''_'' \<in> set (str_nat (nat i))"
    by (auto simp: str_int_def split: if_splits)
  then obtain n where "CHR ''_'' \<in> set (str_nat n)" by blast
  from str_nat_digits [OF this] digit_char_plain(1) show False by metis
qed

lemma str_nat_no_minus: "hd (str_nat n) \<noteq> CHR ''-''"
proof -
  have "hd (str_nat n) \<in> set (str_nat n)" using str_nat_nonempty by simp
  from str_nat_digits [OF this] digit_char_plain(2) show ?thesis by metis
qed

lemma str_int_inj: "str_int i = str_int j \<Longrightarrow> i = j"
proof -
  assume e: "str_int i = str_int j"
  show ?thesis
  proof (cases "i < 0")
    case True
    note i = this
    show ?thesis
    proof (cases "j < 0")
      case True
      with i e have "str_nat (nat (- i)) = str_nat (nat (- j))" by (simp add: str_int_def)
      from str_nat_inj [OF this] i True show ?thesis by simp
    next
      case False
      with i e have "CHR ''-'' # str_nat (nat (- i)) = str_nat (nat j)" by (simp add: str_int_def)
      then have "hd (str_nat (nat j)) = CHR ''-''" by (metis list.sel(1))
      with str_nat_no_minus show ?thesis by blast
    qed
  next
    case False
    note i = this
    show ?thesis
    proof (cases "j < 0")
      case True
      with i e have "str_nat (nat i) = CHR ''-'' # str_nat (nat (- j))" by (simp add: str_int_def)
      then have "hd (str_nat (nat i)) = CHR ''-''" by (metis list.sel(1))
      with str_nat_no_minus show ?thesis by blast
    next
      case False
      with i e have "str_nat (nat i) = str_nat (nat j)" by (simp add: str_int_def)
      from str_nat_inj [OF this] i False show ?thesis by simp
    qed
  qed
qed

lemma startswith_separator:
  "u \<notin> set a \<Longrightarrow> u \<notin> set b \<Longrightarrow> startswith (b @ u # rest) (a @ [u]) \<longleftrightarrow> a = b"
proof (induction a arbitrary: b)
  case Nil
  then show ?case by (cases b) (auto simp: startswith_def)
next
  case (Cons x a)
  show ?case
  proof (cases b)
    case Nil
    with Cons.prems show ?thesis by (auto simp: startswith_def)
  next
    case (Cons y b')
    with Cons.prems Cons.IH [of b'] show ?thesis by (auto simp: startswith_def)
  qed
qed

lemma startswith_position_key:
  "startswith (position_key sf q t r) (str_int (int p) @ ''_'') \<longleftrightarrow> q = int p"
proof -
  have "position_key sf q t r
      = str_int q @ CHR ''_'' # (t @ ''_'' @ sf (x0 r) @ ''_'' @ sf (y0 r))"
    by (simp add: position_key_def)
  moreover have "str_int (int p) @ ''_'' = str_int (int p) @ [CHR ''_'']" by simp
  ultimately have "startswith (position_key sf q t r) (str_int (int p) @ ''_'')
      \<longleftrightarrow> str_int (int p) = str_int q"
    using startswith_separator [OF str_int_plain str_int_plain] by simp
  then show ?thesis using str_int_inj by auto
qed

section \<open>The locate phase\<close>

subsection \<open>Search pairs\<close>

text \<open>
  Claim C7. The search pairs of a record are the full pair (value, replacement) followed by
  the pair of first tokens and the pair of last tokens exactly when the type is
  \<^verbatim>\<open>Person Name\<close> or \<^verbatim>\<open>Client Name\<close> and both the value and the replacement split into at
  least two whitespace-separated tokens; in every other case the full pair is the only one.
  The tokens are those of \<^verbatim>\<open>str.split()\<close>, whose whitespace includes the no-break space and
  the next-line character beside the ASCII ones (\<open>split_tokens\<close>, \<open>split_concat\<close>).
\<close>

theorem search_pairs_of_record:
  "elements_to_search t v r =
     (if (t = ''Person Name'' \<or> t = ''Client Name'')
          \<and> length (split v) \<ge> 2 \<and> length (split r) \<ge> 2
      then [(v, r), (hd (split v), hd (split r)), (last (split v), last (split r))]
      else [(v, r)])"
  by (simp add: elements_to_search_def Let_def)

theorem search_pairs_of_record_witness:
  "elements_to_search ''Person Name'' ''John Doe'' ''Jane Smith''
     = [(''John Doe'', ''Jane Smith''), (''John'', ''Jane''), (''Doe'', ''Smith'')]
   \<and> elements_to_search ''Person Name'' ''John Doe'' ''XXXXX'' = [(''John Doe'', ''XXXXX'')]
   \<and> elements_to_search ''IBAN'' ''FR76 3000'' ''FR12 3456'' = [(''FR76 3000'', ''FR12 3456'')]
   \<and> elements_to_search ''Client Name'' nbsp_name ''Jane Smith''
     = [(nbsp_name, ''Jane Smith''), (''John'', ''Jane''), (''Doe'', ''Smith'')]"
proof -
  have a: "split ''John Doe'' = [''John'', ''Doe'']" by code_simp
  have b: "split ''Jane Smith'' = [''Jane'', ''Smith'']" by code_simp
  have c: "split ''XXXXX'' = [''XXXXX'']" by code_simp
  have d: "split nbsp_name = [''John'', ''Doe'']" by code_simp
  show ?thesis
    using search_pairs_of_record [of "''Person Name''" "''John Doe''" "''Jane Smith''"]
          search_pairs_of_record [of "''Person Name''" "''John Doe''" "''XXXXX''"]
          search_pairs_of_record [of "''IBAN''" "''FR76 3000''" "''FR12 3456''"]
          search_pairs_of_record [of "''Client Name''" nbsp_name "''Jane Smith''"]
    by (simp add: a b c d)
qed

subsection \<open>Records whose page is out of range\<close>

text \<open>
  A record whose page lies beyond the last page passes the guard of line 61 the wrong way
  and leaves both \<^verbatim>\<open>text_positions\<close> and \<^verbatim>\<open>not_found_elements\<close> as they were.
\<close>

lemma page_beyond_count_is_skipped:
  assumes "int (length (pages doc)) < py_get (el_page el) 1"
  shows "locate_element sf doc el st = Some st"
  using assms by (simp add: locate_element_def Let_def)

text \<open>
  Claim C1 says the same of every page outside \<open>[1, page_count]\<close>. The guard has no lower
  bound: page 0 gives \<^verbatim>\<open>page_num = -1\<close>, which is below \<^verbatim>\<open>len(doc)\<close>, and \<^verbatim>\<open>doc[-1]\<close> is the
  last page. On the one-page sample document, a record "John Doe" with page 0 is located
  (two entries, keyed with \<^verbatim>\<open>-1\<close>), a record with page 0 and a value absent from the page
  gets a not-found entry with page 0, the entries are counted as replacements, and the
  second pass, which selects by the prefixes \<^verbatim>\<open>0_\<close>, \<^verbatim>\<open>1_\<close>, ..., never blanks nor replaces
  them.
\<close>

theorem page_zero_record_is_located:
  "map_option (\<lambda>out. (map fst (out_positions out), not_found_in_pdf out, out_events out,
                       total_replacements (anonymization_summary out)))
     (anonymize_pdf str_float_whole sample_library sample_doc
        \<lparr>sensitive_elements = Some [record_page_zero, record_absent_page_zero]\<rparr>)
   = Some ([''-1_John Doe_72.0_61.0'', ''-1_John_72.0_61.0''],
           Some [\<lparr>nf_type = ''IBAN'', nf_value = ''FR1234567890123456789012345'', nf_page = 0,
                  nf_replacement = ''FR9876543210987654321098765''\<rparr>],
           [Apply_redactions 0], 2)"
  by code_simp

subsection \<open>Records not found\<close>

text \<open>
  Claim C4. For a record whose page exists in the document, the round of the first pass
  appends exactly one entry (type, value, page, replacement) to \<^verbatim>\<open>not_found_elements\<close> if
  the search for the full value on that page returns nothing, and appends nothing
  otherwise. The searches for the name tokens take no part in it.
\<close>

theorem not_found_iff_full_value_absent:
  assumes "1 \<le> py_get (el_page el) 1"
      and "py_get (el_page el) 1 \<le> int (length (pages doc))"
  shows "\<exists>st'. locate_element sf doc el st = Some st'
     \<and> not_found_elements st' =
          not_found_elements st @
          (if search_for (pages doc ! nat (py_get (el_page el) 1 - 1)) (py_get (el_value el) '''') = []
           then [\<lparr>nf_type = py_get (el_type el) ''Unknown'',
                  nf_value = py_get (el_value el) '''',
                  nf_page = py_get (el_page el) 1,
                  nf_replacement = py_get (el_replacement el) ''XXXXX''\<rparr>]
           else [])"
proof -
  let ?n = "int (length (pages doc))"
  let ?i = "py_get (el_page el) 1 - 1"
  from assms have i: "0 \<le> ?i" "?i < ?n" by auto
  then have "?i mod ?n = ?i" by simp
  with i have "doc_getitem doc ?i = Some (pages doc ! nat ?i)"
    by (auto simp: doc_getitem_def Let_def)
  with i show ?thesis
    by (simp add: locate_element_def Let_def)
qed

text \<open>
  On the sample page the record "John Roe" has its first name found (one occurrence is
  stored, with the replacement "Jane") and is reported as not found all the same.
\<close>

theorem not_found_iff_full_value_absent_witness:
  "1 \<le> py_get (el_page record_john_roe) 1
   \<and> py_get (el_page record_john_roe) 1 \<le> int (length (pages sample_doc))
   \<and> map (replacement \<circ> snd) (positions (the (locate_element str_float_whole sample_doc record_john_roe empty_state))) = [''Jane'']
   \<and> not_found_elements (the (locate_element str_float_whole sample_doc record_john_roe empty_state))
       = [\<lparr>nf_type = ''Person Name'', nf_value = ''John Roe'', nf_page = 1, nf_replacement = ''Jane Smith''\<rparr>]"
proof -
  have h1: "1 \<le> py_get (el_page record_john_roe) 1"
    by (simp add: record_john_roe_def py_get_def)
  have h2: "py_get (el_page record_john_roe) 1 \<le> int (length (pages sample_doc))"
    by (simp add: record_john_roe_def py_get_def sample_doc_def)
  have p: "map (replacement \<circ> snd) (positions (the (locate_element str_float_whole sample_doc record_john_roe empty_state))) = [''Jane'']"
    by code_simp
  from not_found_iff_full_value_absent [OF h1 h2, of str_float_whole empty_state]
  obtain st' where st': "locate_element str_float_whole sample_doc record_john_roe empty_state = Some st'"
    and nf: "not_found_elements st' =
          not_found_elements empty_state @
          (if search_for (pages sample_doc ! nat (py_get (el_page record_john_roe) 1 - 1)) (py_get (el_value record_john_roe) '''') = []
           then [\<lparr>nf_type = py_get (el_type record_john_roe) ''Unknown'',
                  nf_value = py_get (el_value record_john_roe) '''',
                  nf_page = py_get (el_page record_john_roe) 1,
                  nf_replacement = py_get (el_replacement record_john_roe) ''XXXXX''\<rparr>]
           else [])" by blast
  have "not_found_elements st' = [\<lparr>nf_type = ''Person Name'', nf_value = ''John Roe'', nf_page = 1, nf_replacement = ''Jane Smith''\<rparr>]"
    unfolding nf by (simp add: record_john_roe_def py_get_def sample_doc_def sample_page_def empty_state_def)
  with st' h1 h2 p show ?thesis by simp
qed

subsection \<open>Stored replacements\<close>

lemma elements_to_search_replacements:
  assumes "p \<in> set (elements_to_search ty v r)"
  shows "snd p = r \<or> snd p \<noteq> []"
  using assms split_hd_last_nonempty [of r]
  by (auto simp: elements_to_search_def Let_def split: if_splits)

lemma store_instances_replacement:
  "(k, occ) \<in> set (store_instances sf pg n t rep rs tp) \<Longrightarrow>
     (k, occ) \<in> set tp \<or> replacement occ = rep"
proof (induction rs arbitrary: tp)
  case Nil
  then show ?case by simp
next
  case (Cons r rs)
  let ?tp = "AList.update (position_key sf n t r)
          \<lparr>occ_rect = r, replacement = rep, occ_span_info = style_probe pg r\<rparr> tp"
  from Cons.prems have "(k, occ) \<in> set (store_instances sf pg n t rep rs ?tp)" by simp
  from Cons.IH [OF this] show ?case
  proof
    assume "(k, occ) \<in> set ?tp"
    with set_update_subset [of "position_key sf n t r" _ tp]
    have "(k, occ) = (position_key sf n t r, \<lparr>occ_rect = r, replacement = rep, occ_span_info = style_probe pg r\<rparr>) \<or> (k, occ) \<in> set tp"
      by blast
    then show ?thesis by auto
  qed simp
qed

lemma search_pairs_replacement:
  "(k, occ) \<in> set (search_pairs sf pg n ps tp) \<Longrightarrow>
     (k, occ) \<in> set tp \<or> replacement occ \<in> snd ` set ps"
proof (induction ps arbitrary: tp)
  case Nil
  then show ?case by simp
next
  case (Cons p ps)
  obtain t rep where p: "p = (t, rep)" by (cases p)
  let ?tp = "if search_for pg t \<noteq> [] then store_instances sf pg n t rep (search_for pg t) tp else tp"
  from Cons.prems have "(k, occ) \<in> set (search_pairs sf pg n ps ?tp)"
    by (simp add: p Let_def)
  from Cons.IH [OF this] show ?case
  proof
    assume "(k, occ) \<in> set ?tp"
    then have "(k, occ) \<in> set tp \<or> replacement occ = rep"
      using store_instances_replacement by (cases "search_for pg t \<noteq> []") auto
    then show ?thesis by (auto simp: p)
  next
    assume "replacement occ \<in> snd ` set ps"
    then show ?thesis by auto
  qed
qed

lemma locate_element_replacement:
  assumes "locate_element sf doc el st = Some st'"
      and "(k, occ) \<in> set (positions st')"
      and "el_replacement el \<noteq> Some []"
  shows "(k, occ) \<in> set (positions st) \<or> replacement occ \<noteq> []"
proof (cases "py_get (el_page el) 1 - 1 < int (length (pages doc))")
  case False
  with assms show ?thesis by (simp add: locate_element_def Let_def)
next
  case True
  let ?r = "py_get (el_replacement el) ''XXXXX''"
  let ?ps = "elements_to_search (py_get (el_type el) ''Unknown'') (py_get (el_value el) '''') ?r"
  from assms(3) have r: "?r \<noteq> []" by (cases "el_replacement el") (auto simp: py_get_def)
  from True assms(1) obtain pg where
    "positions st' = search_pairs sf pg (py_get (el_page el) 1 - 1) ?ps (positions st)"
    by (auto simp: locate_element_def Let_def split: option.splits)
  with assms(2) search_pairs_replacement
  have "(k, occ) \<in> set (positions st) \<or> replacement occ \<in> snd ` set ?ps" by metis
  then show ?thesis
  proof
    assume "replacement occ \<in> snd ` set ?ps"
    then obtain p where p: "p \<in> set ?ps" and q: "replacement occ = snd p" by auto
    from elements_to_search_replacements [OF p] r q show ?thesis by auto
  qed simp
qed

lemma locate_all_replacement:
  assumes "locate_all sf doc els st = Some st'"
      and "\<forall>el\<in>set els. el_replacement el \<noteq> Some []"
      and "\<forall>(k, occ)\<in>set (positions st). replacement occ \<noteq> []"
  shows "\<forall>(k, occ)\<in>set (positions st'). replacement occ \<noteq> []"
  using assms
proof (induction els arbitrary: st)
  case Nil
  then show ?case by simp
next
  case (Cons el els)
  from Cons.prems(1) obtain st1 where
    s1: "locate_element sf doc el st = Some st1" and s2: "locate_all sf doc els st1 = Some st'"
    by (auto split: option.splits)
  from Cons.prems(2) have e: "el_replacement el \<noteq> Some []" by simp
  have "\<forall>(k, occ)\<in>set (positions st1). replacement occ \<noteq> []"
    using locate_element_replacement [OF s1 _ e] Cons.prems(3) by fastforce
  with Cons.IH [OF s2] Cons.prems(2) show ?case by simp
qed

text \<open>
  Claim C5 says that no stored occurrence carries an empty replacement. The placeholder
  \<^verbatim>\<open>XXXXX\<close> stands in for a missing \<^verbatim>\<open>replacement\<close> key only: a record whose replacement is
  the empty string is stored with it.
\<close>

theorem empty_replacement_is_stored:
  "map_option (\<lambda>out. map (\<lambda>(key, info). replacement info) (out_positions out))
     (anonymize_pdf str_float_whole sample_library sample_doc
        \<lparr>sensitive_elements = Some [record_empty_replacement]\<rparr>)
   = Some ['''']"
  by code_simp

text \<open>
  Claim C5, amended. If no record carries the empty string as its replacement (the key may
  be missing: the placeholder \<^verbatim>\<open>XXXXX\<close> is used then), every occurrence stored in
  \<^verbatim>\<open>text_positions\<close> has a replacement that is not empty.
\<close>

theorem stored_replacement_nonempty:
  assumes "anonymize_pdf sf lib doc a = Some out"
      and "\<forall>el\<in>set (py_get (sensitive_elements a) []). el_replacement el \<noteq> Some ''''"
  shows "\<forall>(key, info)\<in>set (out_positions out). replacement info \<noteq> ''''"
proof -
  from assms(1) obtain st where
    st: "locate_all sf doc (py_get (sensitive_elements a) []) empty_state = Some st"
    and out: "out_positions out = positions st"
    by (auto simp: anonymize_pdf_def Let_def split: option.splits)
  have "\<forall>(k, occ)\<in>set (positions empty_state). replacement occ \<noteq> []"
    by (simp add: empty_state_def)
  from locate_all_replacement [OF st assms(2) this] out show ?thesis by simp
qed

theorem stored_replacement_nonempty_witness:
  "list_all (\<lambda>el. el_replacement el \<noteq> Some '''') [record_john_doe, record_no_replacement]
   \<and> map_option (\<lambda>out. map (\<lambda>(key, info). replacement info) (out_positions out))
       (anonymize_pdf str_float_whole sample_library sample_doc
          \<lparr>sensitive_elements = Some [record_john_doe, record_no_replacement]\<rparr>)
     = Some [''XXXXX'', ''Jane'']
   \<and> list_all (\<lambda>r. r \<noteq> '''') [''XXXXX'', ''Jane'']"
proof -
  let ?a = "\<lparr>sensitive_elements = Some [record_john_doe, record_no_replacement]\<rparr>"
  have ev: "map_option (\<lambda>out. map (\<lambda>(key, info). replacement info) (out_positions out))
       (anonymize_pdf str_float_whole sample_library sample_doc ?a) = Some [''XXXXX'', ''Jane'']"
    by code_simp
  then obtain out where
    out: "anonymize_pdf str_float_whole sample_library sample_doc ?a = Some out"
    and reps: "map (\<lambda>(key, info). replacement info) (out_positions out) = [''XXXXX'', ''Jane'']"
    by auto
  have h: "\<forall>el\<in>set (py_get (sensitive_elements ?a) []). el_replacement el \<noteq> Some ''''"
    by (simp add: py_get_def record_john_doe_def record_no_replacement_def)
  from stored_replacement_nonempty [OF out h] ev h show ?thesis
    by (simp add: py_get_def)
qed

subsection \<open>The style probe\<close>

lemma probe_spans_find:
  "probe_spans ss r = map_option make_span_info (find (\<lambda>s. intersects (span_bbox s) r) ss)"
  by (induction ss) auto

lemma probe_lines_find:
  "probe_lines ls r =
     map_option make_span_info (find (\<lambda>s. intersects (span_bbox s) r) (concat (map line_spans ls)))"
  by (induction ls) (auto simp: probe_spans_find find_append split: option.splits)

lemma probe_blocks_find:
  "probe_blocks bs r =
     map_option make_span_info (find (\<lambda>s. intersects (span_bbox s) r) (text_runs bs))"
  by (induction bs)
     (auto simp: text_runs_def probe_lines_find find_append py_get_def split: option.splits)

text \<open>
  Claim C6. The run probed for a match is the first text run of the page whose box
  intersects the matched rectangle. With \<open>reported_size\<close> its size (10 when missing) and
  \<open>visual_height\<close> the height of its box, the size of the probed style is
  \<open>0.85 * visual_height\<close> if \<open>visual_height > 1.5 * reported_size\<close>, and \<open>reported_size\<close>
  itself otherwise. Sizes are rationals here: the rounding of floats is not modelled.
\<close>

theorem probed_size_correction:
  assumes "find (\<lambda>s. intersects (span_bbox s) r) (text_runs (text_dict pg)) = Some s"
  shows "size (style_probe pg r) =
     (if y1 (span_bbox s) - y0 (span_bbox s) > 1.5 * py_get (span_size s) 10
      then 0.85 * (y1 (span_bbox s) - y0 (span_bbox s))
      else py_get (span_size s) 10)"
  using assms
  by (simp add: style_probe_def probe_blocks_find make_span_info_def Let_def mult.commute)

text \<open>A run of reported size 10 and visual height 20 yields 17; the run of the sample page
  (size 12, height 14) keeps 12.\<close>

theorem probed_size_correction_witness:
  "find (\<lambda>s. intersects (span_bbox s) name_rect) (text_runs (text_dict scaled_page)) = Some scaled_span
   \<and> py_get (span_size scaled_span) 10 = 10
   \<and> y1 (span_bbox scaled_span) - y0 (span_bbox scaled_span) = 20
   \<and> size (style_probe scaled_page name_rect) = 17
   \<and> find (\<lambda>s. intersects (span_bbox s) name_rect) (text_runs (text_dict sample_page)) = Some sample_span
   \<and> size (style_probe sample_page name_rect) = 12"
proof -
  have a: "find (\<lambda>s. intersects (span_bbox s) name_rect) (text_runs (text_dict scaled_page)) = Some scaled_span"
    by code_simp
  have b: "find (\<lambda>s. intersects (span_bbox s) name_rect) (text_runs (text_dict sample_page)) = Some sample_span"
    by code_simp
  have c: "py_get (span_size scaled_span) 10 = 10" "y1 (span_bbox scaled_span) - y0 (span_bbox scaled_span) = 20"
    by (simp_all add: scaled_span_def py_get_def)
  have d: "py_get (span_size sample_span) 10 = 12" "y1 (span_bbox sample_span) - y0 (span_bbox sample_span) = 14"
    by (simp_all add: sample_span_def py_get_def name_rect_def)
  from probed_size_correction [OF a] probed_size_correction [OF b] a b c d
  show ?thesis by simp
qed

section \<open>The second pass\<close>

subsection \<open>Blanking before insertion\<close>

lemma blank_page_events:
  "e \<in> set (blank_page p tp) \<Longrightarrow> is_blanking e \<and> event_page e = Some p"
  by (auto simp: blank_page_def Let_def)

lemma try_fonts_events:
  "e \<in> set (fst (try_fonts lib names)) \<Longrightarrow> \<not> is_blanking e \<and> \<not> is_insertion e"
  by (induction names) (auto split: if_splits prod.splits)

lemma write_with_textwriter_events:
  "e \<in> set (write_with_textwriter lib p info) \<Longrightarrow>
     \<not> is_blanking e \<and> (event_page e = Some p \<or> event_page e = None)"
proof -
  assume e: "e \<in> set (write_with_textwriter lib p info)"
  obtain evs found where t: "try_fonts lib (font_attempts (font (occ_span_info info))) = (evs, found)"
    by (cases "try_fonts lib (font_attempts (font (occ_span_info info)))")
  have evs: "\<And>x. x \<in> set evs \<Longrightarrow> \<not> is_blanking x \<and> \<not> is_insertion x"
    using try_fonts_events [of _ lib "font_attempts (font (occ_span_info info))"] t by simp
  have nopage: "\<And>x. \<not> is_blanking x \<Longrightarrow> \<not> is_insertion x \<Longrightarrow> event_page x = None"
    by (case_tac x) auto
  from e t evs nopage show ?thesis
    by (cases found) (auto simp: write_with_textwriter_def)
qed

lemma insert_replacement_events:
  "e \<in> set (insert_replacement lib p fm info) \<Longrightarrow>
     \<not> is_blanking e \<and> (event_page e = Some p \<or> event_page e = None)"
  using write_with_textwriter_events [of e lib p info]
  by (auto simp: insert_replacement_def Let_def split: option.splits if_splits)

lemma fill_page_events:
  "e \<in> set (fill_page lib p tp) \<Longrightarrow>
     \<not> is_blanking e \<and> (event_page e = Some p \<or> event_page e = None)"
  using insert_replacement_events
  by (fastforce simp: fill_page_def Let_def)

lemma process_page_events:
  "e \<in> set (process_page lib tp q) \<Longrightarrow> event_page e = Some q \<or> event_page e = None"
  using blank_page_events [of e q tp] fill_page_events [of e lib q tp]
  by (auto simp: process_page_def)

lemma blank_page_calls:
  "Apply_redactions p \<in> set (blank_page p tp)"
  "(key, info) \<in> set (page_entries p tp) \<Longrightarrow>
     Add_redact_annot p (occ_rect info) \<in> set (blank_page p tp)"
  by (force simp: blank_page_def Let_def)+

lemma process_page_other_page:
  "e \<in> set (concat (map (process_page lib tp) ps)) \<Longrightarrow> p \<notin> set ps \<Longrightarrow> event_page e \<noteq> Some p"
  using process_page_events by fastforce

text \<open>
  Claim C2. Wherever a call that inserts text on page \<open>p\<close> (\<^verbatim>\<open>page.insert_text\<close> or
  \<^verbatim>\<open>tw.write_text(page)\<close>) stands among the calls of the second pass, the calls before it
  are: calls that do not touch page \<open>p\<close>, then \<^verbatim>\<open>add_redact_annot\<close> for every rectangle
  matched on \<open>p\<close> (the entries of \<^verbatim>\<open>text_positions\<close> whose key starts with the number of
  \<open>p\<close>), in the order of the entries, then \<^verbatim>\<open>apply_redactions\<close> on \<open>p\<close>, then calls that
  blank nothing. No call after it blanks page \<open>p\<close>. So the blanking of a page is the
  annotations followed by the application, and it is complete before the first insertion
  on that page.
\<close>

theorem blanking_before_insertion:
  assumes tr: "second_pass lib doc tp = before @ e # after"
      and ins: "is_insertion e"
      and pg: "event_page e = Some p"
  shows "\<exists>pre w.
           before = pre
              @ map (Add_redact_annot p) (map (\<lambda>(key, info). occ_rect info) (page_entries p tp))
              @ [Apply_redactions p] @ w
         \<and> (\<forall>b\<in>set pre. event_page b \<noteq> Some p)
         \<and> (\<forall>b\<in>set w. \<not> is_blanking b)
         \<and> (\<forall>b\<in>set after. is_blanking b \<longrightarrow> event_page b \<noteq> Some p)"
proof -
  let ?f = "process_page lib tp"
  let ?n = "length (pages doc)"
  from tr obtain ps1 q ps2 u v where
    ps: "[0..<?n] = ps1 @ q # ps2" and fq: "?f q = u @ e # v"
    and b: "before = concat (map ?f ps1) @ u" and a: "after = v @ concat (map ?f ps2)"
    unfolding second_pass_def using concat_map_split [of ?f "[0..<?n]" before e after] by blast
  have "e \<in> set (?f q)" using fq by simp
  from process_page_events [OF this] pg have q: "q = p" by simp
  have d: "distinct (ps1 @ p # ps2)" using ps [symmetric] q by simp
  have nb: "\<not> is_blanking e" using ins by (cases e) auto
  have "blank_page p tp @ fill_page lib p tp = u @ e # v"
    using fq q by (simp add: process_page_def)
  then obtain w where
    "(blank_page p tp = u @ w \<and> w @ fill_page lib p tp = e # v)
     \<or> (blank_page p tp @ w = u \<and> fill_page lib p tp = w @ e # v)"
    unfolding append_eq_append_conv2 by blast
  then have split: "\<exists>w. blank_page p tp @ w = u \<and> fill_page lib p tp = w @ e # v"
  proof
    assume c: "blank_page p tp = u @ w \<and> w @ fill_page lib p tp = e # v"
    show ?thesis
    proof (cases w)
      case Nil
      with c show ?thesis by auto
    next
      case (Cons x w')
      with c have "e \<in> set (blank_page p tp)" by auto
      with blank_page_events nb show ?thesis by blast
    qed
  qed blast
  then obtain w where u: "u = blank_page p tp @ w" and fill: "fill_page lib p tp = w @ e # v"
    by blast
  have 1: "before = concat (map ?f ps1)
              @ map (Add_redact_annot p) (map (\<lambda>(key, info). occ_rect info) (page_entries p tp))
              @ [Apply_redactions p] @ w"
    using b u by (simp add: blank_page_def Let_def)
  have 2: "\<forall>b\<in>set (concat (map ?f ps1)). event_page b \<noteq> Some p"
    using process_page_other_page [of _ lib tp ps1 p] d by auto
  have 3: "\<forall>b\<in>set w. \<not> is_blanking b"
    using fill fill_page_events [of _ lib p tp] by auto
  have 4: "\<forall>b\<in>set after. is_blanking b \<longrightarrow> event_page b \<noteq> Some p"
  proof (intro ballI impI)
    fix x assume x: "x \<in> set after" and bl: "is_blanking x"
    from x a have "x \<in> set v \<or> x \<in> set (concat (map ?f ps2))" by auto
    then show "event_page x \<noteq> Some p"
    proof
      assume "x \<in> set v"
      then have "x \<in> set (fill_page lib p tp)" using fill by simp
      with fill_page_events bl show ?thesis by blast
    next
      assume "x \<in> set (concat (map ?f ps2))"
      with process_page_other_page [of x lib tp ps2 p] d show ?thesis by auto
    qed
  qed
  from 1 2 3 4 show ?thesis by blast
qed

text \<open>
  On the sample page, before the second insertion stand the two annotations, the
  application and the first insertion, in this order.
\<close>

theorem blanking_before_insertion_witness:
  "positions (the (locate_all str_float_whole sample_doc [record_john_doe] empty_state))
     = sample_positions
   \<and> second_pass sample_library sample_doc sample_positions =
       [Add_redact_annot 0 name_rect, Add_redact_annot 0 first_name_rect, Apply_redactions 0,
        Insert_text 0 (72, 353 / 5) ''Jane Smith'' ''helv'' 12 0 True]
       @ Insert_text 0 (72, 353 / 5) ''Jane'' ''helv'' 12 0 True # []
   \<and> is_insertion (Insert_text 0 (72, 353 / 5) ''Jane'' ''helv'' 12 0 True)
   \<and> event_page (Insert_text 0 (72, 353 / 5) ''Jane'' ''helv'' 12 0 True) = Some 0
   \<and> [Add_redact_annot 0 name_rect, Add_redact_annot 0 first_name_rect, Apply_redactions 0,
       Insert_text 0 (72, 353 / 5) ''Jane Smith'' ''helv'' 12 0 True]
     = [] @ map (Add_redact_annot 0)
              (map (\<lambda>(key, info). occ_rect info) (page_entries 0 sample_positions))
          @ [Apply_redactions 0]
          @ [Insert_text 0 (72, 353 / 5) ''Jane Smith'' ''helv'' 12 0 True]
   \<and> list_all (\<lambda>b. \<not> is_blanking b)
       [Insert_text 0 (72, 353 / 5) ''Jane Smith'' ''helv'' 12 0 True]"
proof -
  let ?before =
    "[Add_redact_annot 0 name_rect, Add_redact_annot 0 first_name_rect, Apply_redactions 0,
      Insert_text 0 (72, 353 / 5) ''Jane Smith'' ''helv'' 12 0 True]"
  let ?e = "Insert_text 0 (72, 353 / 5) ''Jane'' ''helv'' 12 0 True"
  have loc: "positions (the (locate_all str_float_whole sample_doc [record_john_doe] empty_state))
     = sample_positions"
    by code_simp
  have tr: "second_pass sample_library sample_doc sample_positions = ?before @ ?e # []"
    by code_simp
  have ins: "is_insertion ?e" by simp
  have pg: "event_page ?e = Some 0" by simp
  have blank: "map (Add_redact_annot 0)
      (map (\<lambda>(key, info). occ_rect info) (page_entries 0 sample_positions))
      = [Add_redact_annot 0 name_rect, Add_redact_annot 0 first_name_rect]"
    by code_simp
  from blanking_before_insertion [OF tr ins pg] loc tr ins pg blank
  show ?thesis by simp
qed

text \<open>
  Which entries belong to a page. A key made for page number \<open>q\<close> is selected for page
  \<open>p\<close> exactly when \<open>q = p\<close>. When every record has a page of at least 1, every entry
  of \<^verbatim>\<open>text_positions\<close> has a key made for a page of the document, so every stored
  occurrence is annotated for redaction on its page. A record with a page below 1 is the
  case of the page-zero record above: its entries are keyed with a negative number and
  belong to no page of the second pass.
\<close>

lemma page_entries_position_key:
  "(position_key sf q t r, occ) \<in> set (page_entries p tp)
     \<longleftrightarrow> (position_key sf q t r, occ) \<in> set tp \<and> q = int p"
  by (auto simp: page_entries_def startswith_position_key)

lemma store_instances_keys:
  "(k, occ) \<in> set (store_instances sf pg n t rep rs tp) \<Longrightarrow>
     (k, occ) \<in> set tp \<or> k = position_key sf n t (occ_rect occ)"
proof (induction rs arbitrary: tp)
  case Nil
  then show ?case by simp
next
  case (Cons r rs)
  let ?tp = "AList.update (position_key sf n t r)
          \<lparr>occ_rect = r, replacement = rep, occ_span_info = style_probe pg r\<rparr> tp"
  from Cons.prems have "(k, occ) \<in> set (store_instances sf pg n t rep rs ?tp)" by simp
  from Cons.IH [OF this] show ?case
  proof
    assume "(k, occ) \<in> set ?tp"
    with set_update_subset [of "position_key sf n t r" _ tp]
    have "(k, occ) = (position_key sf n t r,
             \<lparr>occ_rect = r, replacement = rep, occ_span_info = style_probe pg r\<rparr>)
          \<or> (k, occ) \<in> set tp"
      by blast
    then show ?thesis by auto
  qed simp
qed

lemma search_pairs_keys:
  "(k, occ) \<in> set (search_pairs sf pg n ps tp) \<Longrightarrow>
     (k, occ) \<in> set tp \<or> (\<exists>t. k = position_key sf n t (occ_rect occ))"
proof (induction ps arbitrary: tp)
  case Nil
  then show ?case by simp
next
  case (Cons p ps)
  obtain t rep where p: "p = (t, rep)" by (cases p)
  let ?tp = "if search_for pg t \<noteq> []
             then store_instances sf pg n t rep (search_for pg t) tp else tp"
  from Cons.prems have "(k, occ) \<in> set (search_pairs sf pg n ps ?tp)"
    by (simp add: p Let_def)
  from Cons.IH [OF this] show ?case
  proof
    assume "(k, occ) \<in> set ?tp"
    then have "(k, occ) \<in> set tp \<or> k = position_key sf n t (occ_rect occ)"
      using store_instances_keys by (cases "search_for pg t \<noteq> []") auto
    then show ?thesis by auto
  qed simp
qed

lemma locate_element_keys:
  assumes "locate_element sf doc el st = Some st'"
      and "(k, occ) \<in> set (positions st')"
      and "1 \<le> py_get (el_page el) 1"
  shows "(k, occ) \<in> set (positions st)
       \<or> (\<exists>p t. p < length (pages doc) \<and> k = position_key sf (int p) t (occ_rect occ))"
proof (cases "py_get (el_page el) 1 - 1 < int (length (pages doc))")
  case False
  with assms show ?thesis by (simp add: locate_element_def Let_def)
next
  case True
  let ?n = "py_get (el_page el) 1 - 1"
  from True assms(1) obtain pg ps where
    "positions st' = search_pairs sf pg ?n ps (positions st)"
    by (auto simp: locate_element_def Let_def split: option.splits)
  with assms(2) search_pairs_keys
  have "(k, occ) \<in> set (positions st) \<or> (\<exists>t. k = position_key sf ?n t (occ_rect occ))"
    by metis
  moreover from True assms(3) have "nat ?n < length (pages doc)" "int (nat ?n) = ?n" by auto
  ultimately show ?thesis by metis
qed

lemma locate_all_keys:
  assumes "locate_all sf doc els st = Some st'"
      and "\<forall>el\<in>set els. 1 \<le> py_get (el_page el) 1"
      and "\<forall>(k, occ)\<in>set (positions st).
             \<exists>p t. p < length (pages doc) \<and> k = position_key sf (int p) t (occ_rect occ)"
  shows "\<forall>(k, occ)\<in>set (positions st').
             \<exists>p t. p < length (pages doc) \<and> k = position_key sf (int p) t (occ_rect occ)"
  using assms
proof (induction els arbitrary: st)
  case Nil
  then show ?case by simp
next
  case (Cons el els)
  from Cons.prems(1) obtain st1 where
    s1: "locate_element sf doc el st = Some st1" and s2: "locate_all sf doc els st1 = Some st'"
    by (auto split: option.splits)
  from Cons.prems(2) have e: "1 \<le> py_get (el_page el) 1" by simp
  have "\<forall>(k, occ)\<in>set (positions st1).
             \<exists>p t. p < length (pages doc) \<and> k = position_key sf (int p) t (occ_rect occ)"
    using locate_element_keys [OF s1 _ e] Cons.prems(3) by fastforce
  with Cons.IH [OF s2] Cons.prems(2) show ?case by simp
qed

lemma every_occurrence_is_blanked:
  assumes "anonymize_pdf sf lib doc a = Some out"
      and "\<forall>el\<in>set (py_get (sensitive_elements a) []). 1 \<le> py_get (el_page el) 1"
      and "(k, occ) \<in> set (out_positions out)"
  shows "\<exists>p<length (pages doc). (k, occ) \<in> set (page_entries p (out_positions out))
           \<and> Add_redact_annot p (occ_rect occ) \<in> set (out_events out)"
proof -
  from assms(1) obtain st where
    st: "locate_all sf doc (py_get (sensitive_elements a) []) empty_state = Some st"
    and pos: "out_positions out = positions st"
    and ev: "out_events out = second_pass lib doc (positions st)"
    by (auto simp: anonymize_pdf_def Let_def split: option.splits)
  have "\<forall>(k, occ)\<in>set (positions empty_state).
             \<exists>p t. p < length (pages doc) \<and> k = position_key sf (int p) t (occ_rect occ)"
    by (simp add: empty_state_def)
  from locate_all_keys [OF st assms(2) this] assms(3) pos
  obtain p t where p: "p < length (pages doc)"
    and k: "k = position_key sf (int p) t (occ_rect occ)" by fastforce
  from assms(3) pos k have sel: "(k, occ) \<in> set (page_entries p (positions st))"
    by (simp add: page_entries_position_key)
  then have "Add_redact_annot p (occ_rect occ) \<in> set (blank_page p (positions st))"
    by (rule blank_page_calls(2))
  then have "Add_redact_annot p (occ_rect occ) \<in> set (process_page lib (positions st) p)"
    by (simp add: process_page_def)
  with p have "Add_redact_annot p (occ_rect occ) \<in> set (second_pass lib doc (positions st))"
    by (auto simp: second_pass_def)
  with p sel pos ev show ?thesis by auto
qed

subsection \<open>Font resolution\<close>

lemma try_fonts_attempts:
  "try_fonts lib (font_attempts nm) =
     (if Font_returns lib nm then ([Font_call nm True], Some (Named nm))
      else if Font_returns lib (filter (\<lambda>c. c \<noteq> CHR ''-'') nm)
        then ([Font_call nm False, Font_call (filter (\<lambda>c. c \<noteq> CHR ''-'') nm) True],
              Some (Named (filter (\<lambda>c. c \<noteq> CHR ''-'') nm)))
      else if Font_returns lib ''helv''
        then ([Font_call nm False, Font_call (filter (\<lambda>c. c \<noteq> CHR ''-'') nm) False,
               Font_call ''helv'' True], Some (Named ''helv''))
      else if Font_returns lib ''Times-Roman''
        then ([Font_call nm False, Font_call (filter (\<lambda>c. c \<noteq> CHR ''-'') nm) False,
               Font_call ''helv'' False, Font_call ''Times-Roman'' True],
              Some (Named ''Times-Roman''))
      else ([Font_call nm False, Font_call (filter (\<lambda>c. c \<noteq> CHR ''-'') nm) False,
               Font_call ''helv'' False, Font_call ''Times-Roman'' False], None))"
  by (simp add: font_attempts_def)

lemma spec_chain_tail:
  "spec_first_success (spec_attempt lib n fm info)
     [Exact_name, Separators_stripped, Standard_sans, Standard_serif, Base_face]
   = (let nm = font (occ_span_info info); nd = filter (\<lambda>c. c \<noteq> CHR ''-'') nm in
      if Font_returns lib nm then ([Font_call nm True], Some Exact_name)
      else if Font_returns lib nd
        then ([Font_call nm False, Font_call nd True], Some Separators_stripped)
      else if Font_returns lib ''helv''
        then ([Font_call nm False, Font_call nd False, Font_call ''helv'' True], Some Standard_sans)
      else if Font_returns lib ''Times-Roman''
        then ([Font_call nm False, Font_call nd False, Font_call ''helv'' False,
               Font_call ''Times-Roman'' True], Some Standard_serif)
      else ([Font_call nm False, Font_call nd False, Font_call ''helv'' False,
             Font_call ''Times-Roman'' False, Font_base_call], Some Base_face))"
  by (simp add: Let_def)

lemma textwriter_is_chain_tail:
  "\<exists>evs s. spec_first_success (spec_attempt lib n fm info)
        [Exact_name, Separators_stripped, Standard_sans, Standard_serif, Base_face] = (evs, Some s)
     \<and> s \<noteq> Embedded_page_font
     \<and> snd (spec_attempt lib n fm info s)
     \<and> (\<forall>s'\<in>set (takeWhile (\<lambda>x. x \<noteq> s)
            [Exact_name, Separators_stripped, Standard_sans, Standard_serif, Base_face]).
           \<not> snd (spec_attempt lib n fm info s'))
     \<and> write_with_textwriter lib n info = evs @ spec_draw n info s"
  unfolding spec_chain_tail write_with_textwriter_def try_fonts_attempts
  by (simp add: Let_def spec_draw_def)

text \<open>
  Claim C8. For every occurrence inserted, the calls made by \<open>insert_replacement\<close> are those
  of the chain "first success wins" over the six strategies in their fixed order (embedded
  page font of the same family, font by the probed name, by the name without hyphens,
  \<^verbatim>\<open>helv\<close>, \<^verbatim>\<open>Times-Roman\<close>, base face): the chain always ends with a strategy \<open>s\<close> that
  succeeded, every strategy before \<open>s\<close> failed without any error reaching the caller, and
  the text is drawn with the face of \<open>s\<close>. The base face, last in the order, succeeds always.
\<close>

theorem font_resolution_first_success:
  "\<exists>evs s. spec_first_success (spec_attempt lib n fm info) strategy_order = (evs, Some s)
     \<and> snd (spec_attempt lib n fm info s)
     \<and> (\<forall>s'\<in>set (takeWhile (\<lambda>x. x \<noteq> s) strategy_order). \<not> snd (spec_attempt lib n fm info s'))
     \<and> insert_replacement lib n fm info = evs @ spec_draw n info s"
proof -
  let ?tail = "[Exact_name, Separators_stripped, Standard_sans, Standard_serif, Base_face]"
  from textwriter_is_chain_tail [of lib n fm info] obtain evs s where
    t: "spec_first_success (spec_attempt lib n fm info) ?tail = (evs, Some s)"
    and ne: "s \<noteq> Embedded_page_font"
    and ok: "snd (spec_attempt lib n fm info s)"
    and before: "\<forall>s'\<in>set (takeWhile (\<lambda>x. x \<noteq> s) ?tail). \<not> snd (spec_attempt lib n fm info s')"
    and tw: "write_with_textwriter lib n info = evs @ spec_draw n info s"
    by blast
  show ?thesis
  proof (cases "snd (spec_attempt lib n fm info Embedded_page_font)")
    case True
    then obtain ref_name where
      m: "map_of fm (font (occ_span_info info)) = Some ref_name"
      and r: "insert_text_returns lib n (insertion_point info) (replacement info) ref_name
                (size (occ_span_info info)) (color (occ_span_info info))"
      by (auto simp: Let_def split: option.splits)
    have "spec_first_success (spec_attempt lib n fm info) strategy_order
        = ([Insert_text n (insertion_point info) (replacement info) ref_name
             (size (occ_span_info info)) (color (occ_span_info info)) True], Some Embedded_page_font)"
      using m r by (simp add: strategy_order_def Let_def)
    moreover have "insert_replacement lib n fm info
        = [Insert_text n (insertion_point info) (replacement info) ref_name
             (size (occ_span_info info)) (color (occ_span_info info)) True]
          @ spec_draw n info Embedded_page_font"
      using m r by (simp add: insert_replacement_def Let_def spec_draw_def)
    moreover have "\<forall>s'\<in>set (takeWhile (\<lambda>x. x \<noteq> Embedded_page_font) strategy_order).
        \<not> snd (spec_attempt lib n fm info s')"
      by (simp add: strategy_order_def)
    ultimately show ?thesis using True by blast
  next
    case False
    obtain e0 where e0: "spec_attempt lib n fm info Embedded_page_font = (e0, False)"
      using False by (cases "spec_attempt lib n fm info Embedded_page_font") auto
    have chain: "spec_first_success (spec_attempt lib n fm info) strategy_order = (e0 @ evs, Some s)"
      using e0 t by (simp add: strategy_order_def)
    have ins: "insert_replacement lib n fm info = e0 @ write_with_textwriter lib n info"
      using e0 by (auto simp: insert_replacement_def Let_def split: option.splits)
    have tk: "takeWhile (\<lambda>x. x \<noteq> s) strategy_order
        = Embedded_page_font # takeWhile (\<lambda>x. x \<noteq> s) ?tail"
      using ne by (simp add: strategy_order_def)
    have "\<forall>s'\<in>set (takeWhile (\<lambda>x. x \<noteq> s) strategy_order). \<not> snd (spec_attempt lib n fm info s')"
      unfolding tk using before False by simp
    with chain ins tw ok show ?thesis by auto
  qed
qed

theorem font_resolution_first_success_witness:
  "spec_first_success (spec_attempt roboto_library 0 [] unknown_font_occurrence) strategy_order
     = ([Font_call ''Roboto-Bold'' False, Font_call ''RobotoBold'' True], Some Separators_stripped)
   \<and> insert_replacement roboto_library 0 [] unknown_font_occurrence
     = [Font_call ''Roboto-Bold'' False, Font_call ''RobotoBold'' True,
        Write_text 0 (72, 353 / 5) ''Jane Smith'' (Named ''RobotoBold'') 12]"
proof -
  have ch: "spec_first_success (spec_attempt roboto_library 0 [] unknown_font_occurrence) strategy_order
     = ([Font_call ''Roboto-Bold'' False, Font_call ''RobotoBold'' True], Some Separators_stripped)"
    by code_simp
  have dr: "spec_draw 0 unknown_font_occurrence Separators_stripped
     = [Write_text 0 (72, 353 / 5) ''Jane Smith'' (Named ''RobotoBold'') 12]"
    by code_simp
  from font_resolution_first_success [of roboto_library 0 "[]" unknown_font_occurrence]
  obtain evs s where
    "spec_first_success (spec_attempt roboto_library 0 [] unknown_font_occurrence) strategy_order
       = (evs, Some s)"
    and "insert_replacement roboto_library 0 [] unknown_font_occurrence
       = evs @ spec_draw 0 unknown_font_occurrence s"
    by blast
  with ch dr show ?thesis by simp
qed

section \<open>Metadata and summary\<close>

text \<open>
  Claim C3. In the metadata of the saved document the author is
  \<^verbatim>\<open>holomask https://holofin.ai\<close>, whatever it was, and every other field is what it was
  in the input document.
\<close>

theorem metadata_kept_except_author:
  assumes "anonymize_pdf sf lib doc a = Some out"
  shows "map_of (out_metadata out) ''author'' = Some (Some ''holomask https://holofin.ai'')
       \<and> (\<forall>k. k \<noteq> ''author'' \<longrightarrow>
             map_of (out_metadata out) k = map_of (py_get (metadata doc) []) k)"
proof -
  from assms have m: "out_metadata out = new_metadata (metadata doc)"
    by (auto simp: anonymize_pdf_def Let_def split: option.splits)
  have "(case metadata doc of None \<Rightarrow> [] | Some m \<Rightarrow> if m \<noteq> [] then m else [])
      = py_get (metadata doc) []"
    by (simp add: py_get_def split: option.splits)
  then show ?thesis
    unfolding m new_metadata_def by (simp add: update_conv' attribution_def)
qed

theorem metadata_kept_except_author_witness:
  "map_option out_metadata
     (anonymize_pdf str_float_whole sample_library sample_doc \<lparr>sensitive_elements = Some []\<rparr>)
     = Some [(''title'', Some ''Test Document''), (''author'', Some ''holomask https://holofin.ai'')]
   \<and> map_of (py_get (metadata sample_doc) []) ''title'' = Some (Some ''Test Document'')
   \<and> map_of (py_get (metadata sample_doc) []) ''author'' = Some (Some ''Original Author'')"
proof -
  have ev: "map_option out_metadata
     (anonymize_pdf str_float_whole sample_library sample_doc \<lparr>sensitive_elements = Some []\<rparr>)
     = Some [(''title'', Some ''Test Document''), (''author'', Some ''holomask https://holofin.ai'')]"
    by code_simp
  then obtain out where
    out: "anonymize_pdf str_float_whole sample_library sample_doc \<lparr>sensitive_elements = Some []\<rparr>
            = Some out"
    by auto
  from metadata_kept_except_author [OF out] ev show ?thesis
    by (simp add: sample_doc_def py_get_def)
qed

lemma sum_update_count:
  "distinct (map fst al) \<Longrightarrow>
     sum_list (map snd (AList.update k (py_get (map_of al k) 0 + 1) al))
       = sum_list (map snd al) + (1::int)"
proof (induction al)
  case Nil
  then show ?case by (simp add: py_get_def)
next
  case (Cons p al)
  obtain k' v where p: "p = (k', v)" by (cases p)
  show ?case
  proof (cases "k' = k")
    case True
    then show ?thesis by (simp add: p py_get_def)
  next
    case False
    with Cons show ?thesis by (simp add: p)
  qed
qed

lemma count_types_distinct:
  "distinct (map fst acc) \<Longrightarrow> distinct (map fst (count_types els acc))"
  by (induction els arbitrary: acc) (simp_all add: Let_def distinct_update)

lemma count_types_sum:
  "distinct (map fst acc) \<Longrightarrow>
     sum_list (map snd (count_types els acc)) = sum_list (map snd acc) + int (length els)"
proof (induction els arbitrary: acc)
  case Nil
  then show ?case by simp
next
  case (Cons el els)
  let ?t = "py_get (el_type el) ''Unknown''"
  let ?acc = "AList.update ?t (py_get (map_of acc ?t) 0 + 1) acc"
  have d: "distinct (map fst ?acc)" using Cons.prems by (simp add: distinct_update)
  have "sum_list (map snd (count_types (el # els) acc)) = sum_list (map snd (count_types els ?acc))"
    by (simp add: Let_def)
  also have "\<dots> = sum_list (map snd ?acc) + int (length els)" by (rule Cons.IH [OF d])
  also have "\<dots> = sum_list (map snd acc) + 1 + int (length els)"
    by (simp add: sum_update_count [OF Cons.prems])
  finally show ?case by simp
qed

lemma count_types_lookup:
  "py_get (map_of (count_types els acc) t) 0
     = py_get (map_of acc t) 0
       + int (length (filter (\<lambda>el. py_get (el_type el) ''Unknown'' = t) els))"
proof (induction els arbitrary: acc)
  case Nil
  then show ?case by simp
next
  case (Cons el els)
  show ?case
    by (simp add: Let_def Cons.IH update_conv') (simp add: py_get_def)
qed

text \<open>
  Claim C10. \<^verbatim>\<open>elements_by_type\<close> counts every record of the oracle under its type
  (\<^verbatim>\<open>Unknown\<close> when the type is missing), whether or not it was matched and whatever its
  page: the count of a type is the number of records of that type, and the counts sum to
  \<^verbatim>\<open>total_elements_found\<close>, the number of records.
\<close>

theorem elements_by_type_counts_every_record:
  assumes "anonymize_pdf sf lib doc a = Some out"
  shows "sum_list (map snd (elements_by_type (anonymization_summary out)))
           = total_elements_found (anonymization_summary out)
       \<and> total_elements_found (anonymization_summary out)
           = int (length (py_get (sensitive_elements a) []))
       \<and> (\<forall>t. py_get (map_of (elements_by_type (anonymization_summary out)) t) 0
             = int (length (filter (\<lambda>el. py_get (el_type el) ''Unknown'' = t)
                              (py_get (sensitive_elements a) []))))"
proof -
  from assms obtain st where s: "anonymization_summary out = make_summary a st"
    by (auto simp: anonymize_pdf_def Let_def split: option.splits)
  have 1: "sum_list (map snd (count_types (py_get (sensitive_elements a) []) []))
      = int (length (py_get (sensitive_elements a) []))"
    using count_types_sum [of "[]"] by simp
  have 2: "\<And>t. py_get (map_of (count_types (py_get (sensitive_elements a) []) []) t) 0
      = int (length (filter (\<lambda>el. py_get (el_type el) ''Unknown'' = t)
                              (py_get (sensitive_elements a) [])))"
    using count_types_lookup [of _ "[]"] by (simp add: py_get_def)
  from 1 2 show ?thesis unfolding s make_summary_def by simp
qed

text \<open>Three records, one beyond the last page and one absent from its page: three counted,
  two replacements.\<close>

theorem elements_by_type_counts_every_record_witness:
  "map_option (\<lambda>out. (elements_by_type (anonymization_summary out),
                       total_elements_found (anonymization_summary out),
                       total_replacements (anonymization_summary out),
                       not_found_count (anonymization_summary out)))
     (anonymize_pdf str_float_whole sample_library sample_doc
        \<lparr>sensitive_elements = Some [record_beyond_last_page, record_absent_iban, record_john_doe]\<rparr>)
     = Some ([(''Unknown'', 1), (''IBAN'', 1), (''Person Name'', 1)], 3, 2, 1)
   \<and> sum_list (map snd [(''Unknown'', 1), (''IBAN'', 1), (''Person Name'', 1 :: int)]) = 3"
proof -
  let ?a = "\<lparr>sensitive_elements =
              Some [record_beyond_last_page, record_absent_iban, record_john_doe]\<rparr>"
  have ev: "map_option (\<lambda>out. (elements_by_type (anonymization_summary out),
                       total_elements_found (anonymization_summary out),
                       total_replacements (anonymization_summary out),
                       not_found_count (anonymization_summary out)))
     (anonymize_pdf str_float_whole sample_library sample_doc ?a)
     = Some ([(''Unknown'', 1), (''IBAN'', 1), (''Person Name'', 1)], 3, 2, 1)"
    by code_simp
  then obtain out where
    out: "anonymize_pdf str_float_whole sample_library sample_doc ?a = Some out"
    and ebt: "elements_by_type (anonymization_summary out)
                = [(''Unknown'', 1), (''IBAN'', 1), (''Person Name'', 1)]"
    by auto
  from elements_by_type_counts_every_record [OF out] ev ebt show ?thesis
    by simp
qed

section \<open>Text extraction\<close>

lemma get_area_nonneg: "0 \<le> get_area r"
  by (simp add: get_area_def)

lemma get_area_pos_iff: "0 < get_area r \<longleftrightarrow> \<not> is_empty r"
  by (auto simp: get_area_def is_empty_def zero_less_mult_iff max_def not_le)

lemma intersects_iff_area: "intersects r s \<longleftrightarrow> 0 < get_area (intersect r s)"
  unfolding get_area_pos_iff by (auto simp: intersects_def intersect_def)

lemma intersects_line_area: "intersects r s \<Longrightarrow> 0 < get_area r"
  unfolding get_area_pos_iff by (auto simp: intersects_def split: if_splits)

lemma overlaps_seen_iff:
  "overlaps_seen line_rect seen \<longleftrightarrow>
     (\<exists>seen_rect\<in>set seen. 0 < get_area line_rect
        \<and> get_area (intersect line_rect seen_rect) / get_area line_rect > 0.5)"
proof (induction seen)
  case Nil
  then show ?case by simp
next
  case (Cons s seen)
  show ?case
  proof (cases "intersects line_rect s")
    case True
    with intersects_line_area [OF True] Cons show ?thesis by (auto simp: Let_def)
  next
    case False
    then have "get_area (intersect line_rect s) = 0"
      using intersects_iff_area [of line_rect s] get_area_nonneg [of "intersect line_rect s"]
      by (simp add: not_less)
    with False Cons show ?thesis by simp
  qed
qed

text \<open>
  Claim C9 says that a line is dropped from the output if and only if an accepted
  rectangle covers more than half of it, and that the rectangle of a dropped line is not
  accepted. A line of blank text that nothing overlaps is dropped as well (line 140), and
  its rectangle is accepted (line 134).
\<close>

theorem blank_line_dropped_without_overlap:
  "page_text_parts (process_line blank_line \<lparr>page_text_parts = [], seen_positions = []\<rparr>) = []
   \<and> \<not> line_is_overlapping blank_line []
   \<and> seen_positions (process_line blank_line \<lparr>page_text_parts = [], seen_positions = []\<rparr>) = [name_rect]"
  by code_simp

text \<open>
  Claim C9, amended. A line is an overlay duplicate if and only if it has a bounding
  rectangle and some accepted rectangle meets it in more than half of its area. A line is
  dropped from the output if and only if it is an overlay duplicate or its text is blank,
  that is, nothing is left of it by \<^verbatim>\<open>str.strip()\<close>: it holds whitespace only, the no-break
  space and the next-line character included (\<open>strip_empty_iff\<close>). The rectangle of an
  overlay duplicate is not accepted; the rectangle of any other line that has one is
  accepted, a blank line included.
\<close>

theorem overlay_lines_dropped:
  "(line_is_overlapping l (seen_positions st) \<longleftrightarrow>
      (\<exists>line_rect. line_bbox l = Some line_rect
         \<and> (\<exists>seen_rect\<in>set (seen_positions st). 0 < get_area line_rect
               \<and> get_area (intersect line_rect seen_rect) / get_area line_rect > 0.5)))
   \<and> page_text_parts (process_line l st) =
       (if line_is_overlapping l (seen_positions st) \<or> strip (line_text l) = []
        then page_text_parts st
        else page_text_parts st @ [line_text l])
   \<and> set (seen_positions (process_line l st)) =
       (case line_bbox l of
          None \<Rightarrow> set (seen_positions st)
        | Some line_rect \<Rightarrow>
            if line_is_overlapping l (seen_positions st) then set (seen_positions st)
            else insert line_rect (set (seen_positions st)))"
  by (auto simp: line_is_overlapping_def overlaps_seen_iff process_line_def Let_def
           split: option.splits)

theorem overlay_lines_dropped_witness:
  "line_is_overlapping overlay_line [name_rect]
   \<and> line_bbox overlay_line = Some first_name_rect
   \<and> get_area (intersect first_name_rect name_rect) / get_area first_name_rect = 1
   \<and> page_text_parts (process_line overlay_line \<lparr>page_text_parts = [''John Doe''], seen_positions = [name_rect]\<rparr>) = [''John Doe'']
   \<and> seen_positions (process_line overlay_line \<lparr>page_text_parts = [''John Doe''], seen_positions = [name_rect]\<rparr>) = [name_rect]
   \<and> strip (line_text nbsp_line) = []
   \<and> page_text_parts (process_line nbsp_line \<lparr>page_text_parts = [], seen_positions = []\<rparr>) = []
   \<and> seen_positions (process_line nbsp_line \<lparr>page_text_parts = [], seen_positions = []\<rparr>) = [name_rect]"
proof -
  have a: "get_area (intersect first_name_rect name_rect) / get_area first_name_rect = 1"
    by (simp add: get_area_def intersect_def is_empty_def first_name_rect_def name_rect_def)
  have b: "line_bbox overlay_line = Some first_name_rect"
    by (simp add: overlay_line_def)
  have c: "0 < get_area first_name_rect"
    by (simp add: get_area_def first_name_rect_def)
  have d: "seen_positions (process_line overlay_line \<lparr>page_text_parts = [''John Doe''], seen_positions = [name_rect]\<rparr>) = [name_rect]"
    by code_simp
  have e: "strip (line_text nbsp_line) = []"
    by code_simp
  have f: "seen_positions (process_line nbsp_line \<lparr>page_text_parts = [], seen_positions = []\<rparr>) = [name_rect]"
    by code_simp
  have g: "page_text_parts (process_line nbsp_line \<lparr>page_text_parts = [], seen_positions = []\<rparr>) = []"
    using overlay_lines_dropped [of nbsp_line "\<lparr>page_text_parts = [], seen_positions = []\<rparr>",
            THEN conjunct2, THEN conjunct1] e
    by simp
  have h: "line_is_overlapping overlay_line [name_rect]
   \<and> page_text_parts (process_line overlay_line \<lparr>page_text_parts = [''John Doe''], seen_positions = [name_rect]\<rparr>) = [''John Doe'']"
    using overlay_lines_dropped [of overlay_line "\<lparr>page_text_parts = [''John Doe''], seen_positions = [name_rect]\<rparr>"]
      a b c
    by simp
  from h a b d e f g show ?thesis by simp
qed

end
